theory Spec2Isabelle
  imports Complex_Main "HOL-Library.Sublist"
begin

section \<open>Strings as the scripts use them\<close>

text \<open>
  A JavaScript string is a sequence of UTF-16 code units, and \<^verbatim>\<open>length\<close>, \<^verbatim>\<open>trim\<close>,
  \<^verbatim>\<open>split\<close> and the regular expressions of the scripts (none has the \<^verbatim>\<open>u\<close> flag)
  work on code units. A code unit is modelled as an integer (from 0 to 65535), and
  a string literal of the source is written \<open>js ''...''\<close>.
\<close>

type_synonym code_unit = int

type_synonym jsstring = "code_unit list"

definition js :: "string \<Rightarrow> jsstring" where
  "js s = map of_char s"

text \<open>
  The class \<^verbatim>\<open>\s\<close>, which is also what \<^verbatim>\<open>trim()\<close> strips: the WhiteSpace and
  LineTerminator code points of ECMAScript. These are U+0009 to U+000D, U+0020,
  U+00A0, U+1680, U+2000 to U+200A, U+2028, U+2029, U+202F, U+205F, U+3000 and
  U+FEFF.
\<close>

definition is_space :: "code_unit \<Rightarrow> bool" where
  "is_space c = ((9 \<le> c \<and> c \<le> 13) \<or> c = 32 \<or> c = 160 \<or> c = 5760
                 \<or> (8192 \<le> c \<and> c \<le> 8202) \<or> c = 8232 \<or> c = 8233 \<or> c = 8239
                 \<or> c = 8287 \<or> c = 12288 \<or> c = 65279)"

text \<open>The sentence terminators of the regular expression \<^verbatim>\<open>/[.!?]+/\<close>: the code
  units 46, 33 and 63.\<close>

definition is_terminator :: "code_unit \<Rightarrow> bool" where
  "is_terminator c = (c = 46 \<or> c = 33 \<or> c = 63)"

text \<open>\<^verbatim>\<open>String.prototype.trim\<close>.\<close>

definition trim :: "jsstring \<Rightarrow> jsstring" where
  "trim s = rev (dropWhile is_space (rev (dropWhile is_space s)))"

text \<open>
  \<^verbatim>\<open>s.split(/[C]+/)\<close> for a character class \<open>C\<close>: the pieces between maximal runs
  of separator characters. As in JavaScript the result is never empty, and a
  separator run at the start or at the end of the string yields an empty piece there.
\<close>

function split_re :: "(code_unit \<Rightarrow> bool) \<Rightarrow> jsstring \<Rightarrow> jsstring list" where
  "split_re sep s =
     (let piece = takeWhile (\<lambda>c. \<not> sep c) s;
          rest = dropWhile (\<lambda>c. \<not> sep c) s
      in if rest = [] then [piece] else piece # split_re sep (dropWhile sep rest))"
  by pat_completeness auto
termination
proof (relation "measure (\<lambda>(sep, s). length s)")
  show "wf (measure (\<lambda>(sep, s). length s))" by simp
next
  fix sep :: "code_unit \<Rightarrow> bool" and s piece rest :: jsstring
  assume r: "rest = dropWhile (\<lambda>c. \<not> sep c) s" and ne: "rest \<noteq> []"
  from ne obtain c cs where rc: "rest = c # cs" by (cases rest) auto
  have "\<not> \<not> sep (hd rest)"
    using ne hd_dropWhile [of "\<lambda>c. \<not> sep c" s] unfolding r by blast
  then have "sep c" using rc by simp
  then have "length (dropWhile sep rest) \<le> length cs"
    using rc by (simp add: length_dropWhile_le)
  also have "length cs < length rest" using rc by simp
  also have "length rest \<le> length s" using r by (simp add: length_dropWhile_le)
  finally show "((sep, dropWhile sep rest), (sep, s)) \<in> measure (\<lambda>(sep, s). length s)"
    by simp
qed

declare split_re.simps [simp del]

text \<open>\<^verbatim>\<open>words.join(' ')\<close>; the space is the code unit 32.\<close>

fun join_sp :: "jsstring list \<Rightarrow> jsstring" where
  "join_sp [] = []"
| "join_sp [w] = w"
| "join_sp (w # v # ws) = w @ 32 # join_sp (v # ws)"

section \<open>The chunker (ingest-books.js, upload-to-supabase.js)\<close>

text \<open>
  \<^verbatim>\<open>estimateTokens(text) = Math.ceil(text.split(/\s+/).length / 0.75)\<close>.
  The divisor 0.75 is exact in binary floating point and the quotient \<open>n / 0.75\<close> is
  \<open>4n/3\<close>, so the ceiling is \<open>(4 n + 2) div 3\<close>.
\<close>

definition estimateTokens :: "jsstring \<Rightarrow> nat" where
  "estimateTokens text = (4 * length (split_re is_space text) + 2) div 3"

text \<open>
  \<^verbatim>\<open>words.slice(-overlap)\<close> for a count \<open>overlap\<close>: the last \<open>overlap\<close> words, all of
  them when there are fewer; and \<^verbatim>\<open>slice(-0)\<close> is \<^verbatim>\<open>slice(0)\<close>, the whole array.
\<close>

definition slice_last :: "nat \<Rightarrow> 'a list \<Rightarrow> 'a list" where
  "slice_last overlap ws = (if overlap = 0 then ws else drop (length ws - overlap) ws)"

text \<open>The seed of the next chunk: \<^verbatim>\<open>currentChunk.split(/\s+/).slice(-overlap).join(' ')\<close>.\<close>

definition overlap_seed :: "nat \<Rightarrow> jsstring \<Rightarrow> jsstring" where
  "overlap_seed overlap chunk = join_sp (slice_last overlap (split_re is_space chunk))"

text \<open>
  The state of the loop of \<^verbatim>\<open>splitTextIntoChunks\<close>: the chunks pushed so far, the
  current chunk and its running token estimate.
\<close>

type_synonym chunker_state = "jsstring list \<times> jsstring \<times> nat"

text \<open>One iteration of the \<^verbatim>\<open>for\<close> loop, on the raw piece \<^verbatim>\<open>sentences[i]\<close>.\<close>

definition chunk_step :: "nat \<Rightarrow> nat \<Rightarrow> jsstring \<Rightarrow> chunker_state \<Rightarrow> chunker_state" where
  "chunk_step chunkSize overlap raw st =
     (case st of (chunks, currentChunk, currentTokens) \<Rightarrow>
        let sentence = trim raw @ js ''.'';
            sentenceTokens = estimateTokens sentence
        in if currentTokens + sentenceTokens > chunkSize \<and> currentChunk \<noteq> []
           then let next = overlap_seed overlap currentChunk @ js '' '' @ sentence
                in (chunks @ [trim currentChunk], next, estimateTokens next)
           else (chunks,
                 currentChunk @ (if currentChunk \<noteq> [] then js '' '' else js '''') @ sentence,
                 currentTokens + sentenceTokens))"

text \<open>\<^verbatim>\<open>text.split(/[.!?]+/).filter(s => s.trim().length > 0)\<close>.\<close>

definition raw_sentences :: "jsstring \<Rightarrow> jsstring list" where
  "raw_sentences text = filter (\<lambda>s. trim s \<noteq> []) (split_re is_terminator text)"

text \<open>The array \<^verbatim>\<open>chunks\<close> after the loop and the push of the last chunk, before the
  final length filter.\<close>

definition chunks_before_filter :: "jsstring \<Rightarrow> nat \<Rightarrow> nat \<Rightarrow> jsstring list" where
  "chunks_before_filter text chunkSize overlap =
     (case fold (chunk_step chunkSize overlap) (raw_sentences text) ([], [], 0) of
        (chunks, currentChunk, currentTokens) \<Rightarrow>
          if trim currentChunk \<noteq> [] then chunks @ [trim currentChunk] else chunks)"

definition splitTextIntoChunks :: "jsstring \<Rightarrow> nat \<Rightarrow> nat \<Rightarrow> jsstring list" where
  "splitTextIntoChunks text chunkSize overlap =
     filter (\<lambda>chunk. length chunk > 50) (chunks_before_filter text chunkSize overlap)"

section \<open>Numbers\<close>

text \<open>
  A JavaScript number is an IEEE 754 binary64 value: a finite double, an infinity or
  \<^verbatim>\<open>NaN\<close>. A finite double is modelled by the real number it denotes, so the two
  zeros are one value. Only a division by zero tells them apart, and the divisors of
  the scripts are never the negative zero: they are a product of two square roots,
  the length of an array and positive literals.
\<close>

datatype double = Fin real | PInf | NInf | NaN

text \<open>Rounding a real number to the nearest integer, a tie to the even one.\<close>

definition rne :: "real \<Rightarrow> int" where
  "rne x =
     (let f = \<lfloor>x\<rfloor>; d = x - real_of_int f
      in if d < 1 / 2 then f else if 1 / 2 < d then f + 1 else if even f then f else f + 1)"

text \<open>
  The exponent of the binade of a real number that is not zero: the integer \<open>e\<close>
  with \<open>2 ^ e \<le> \<bar>x\<bar> < 2 ^ (e + 1)\<close>, and \<open>-1022\<close>, the exponent of the subnormal
  doubles, when that is less.
\<close>

definition binade :: "real \<Rightarrow> int" where
  "binade x = max \<lfloor>log 2 \<bar>x\<bar>\<rfloor> (- 1022)"

text \<open>
  The double nearest to a real number, a tie to the one with the even significand:
  the significand has 53 bits, so the doubles of the binade \<open>e\<close> are the multiples
  of \<open>2 ^ (e - 52)\<close>; a result of magnitude \<open>2 ^ 1024\<close> or more is an infinity. Every
  arithmetic operation on finite doubles returns the exact result rounded in this way.
\<close>

definition rnd :: "real \<Rightarrow> double" where
  "rnd x =
     (if x = 0 then Fin 0
      else let q = 2 powr real_of_int (binade x - 52);
               y = real_of_int (rne (x / q)) * q
           in if 2 powr 1024 \<le> \<bar>y\<bar> then (if 0 < x then PInf else NInf) else Fin y)"

text \<open>A numeric literal of the source denotes the double nearest to it.\<close>

definition js_literal :: "real \<Rightarrow> double" where
  "js_literal x = rnd x"

text \<open>An array length or an index, as a number.\<close>

definition of_count :: "nat \<Rightarrow> double" where
  "of_count n = Fin (real n)"

fun dneg :: "double \<Rightarrow> double" where
  "dneg (Fin x) = Fin (- x)"
| "dneg PInf = NInf"
| "dneg NInf = PInf"
| "dneg NaN = NaN"

text \<open>\<^verbatim>\<open>a + b\<close>.\<close>

fun dadd :: "double \<Rightarrow> double \<Rightarrow> double" where
  "dadd (Fin x) (Fin y) = rnd (x + y)"
| "dadd NaN b = NaN"
| "dadd a NaN = NaN"
| "dadd PInf NInf = NaN"
| "dadd NInf PInf = NaN"
| "dadd PInf b = PInf"
| "dadd a PInf = PInf"
| "dadd NInf b = NInf"
| "dadd a NInf = NInf"

text \<open>\<^verbatim>\<open>a - b\<close>.\<close>

definition dsub :: "double \<Rightarrow> double \<Rightarrow> double" where
  "dsub a b = dadd a (dneg b)"

text \<open>\<^verbatim>\<open>a * b\<close>.\<close>

fun dmul :: "double \<Rightarrow> double \<Rightarrow> double" where
  "dmul (Fin x) (Fin y) = rnd (x * y)"
| "dmul NaN b = NaN"
| "dmul a NaN = NaN"
| "dmul (Fin x) PInf = (if x = 0 then NaN else if 0 < x then PInf else NInf)"
| "dmul (Fin x) NInf = (if x = 0 then NaN else if 0 < x then NInf else PInf)"
| "dmul PInf (Fin y) = (if y = 0 then NaN else if 0 < y then PInf else NInf)"
| "dmul NInf (Fin y) = (if y = 0 then NaN else if 0 < y then NInf else PInf)"
| "dmul PInf PInf = PInf"
| "dmul PInf NInf = NInf"
| "dmul NInf PInf = NInf"
| "dmul NInf NInf = PInf"

text \<open>\<^verbatim>\<open>a / b\<close>; a zero divisor counts as the positive zero.\<close>

fun ddiv :: "double \<Rightarrow> double \<Rightarrow> double" where
  "ddiv (Fin x) (Fin y) =
     (if y = 0 then (if x = 0 then NaN else if 0 < x then PInf else NInf) else rnd (x / y))"
| "ddiv NaN b = NaN"
| "ddiv a NaN = NaN"
| "ddiv (Fin x) PInf = Fin 0"
| "ddiv (Fin x) NInf = Fin 0"
| "ddiv PInf (Fin y) = (if 0 \<le> y then PInf else NInf)"
| "ddiv NInf (Fin y) = (if 0 \<le> y then NInf else PInf)"
| "ddiv PInf PInf = NaN"
| "ddiv PInf NInf = NaN"
| "ddiv NInf PInf = NaN"
| "ddiv NInf NInf = NaN"

text \<open>\<^verbatim>\<open>Math.sqrt\<close>, which IEEE 754 requires to be correctly rounded.\<close>

fun dsqrt :: "double \<Rightarrow> double" where
  "dsqrt (Fin x) = (if x < 0 then NaN else rnd (sqrt x))"
| "dsqrt PInf = PInf"
| "dsqrt NInf = NaN"
| "dsqrt NaN = NaN"

text \<open>\<^verbatim>\<open>a >= b\<close>: false when either side is \<^verbatim>\<open>NaN\<close>.\<close>

fun dge :: "double \<Rightarrow> double \<Rightarrow> bool" where
  "dge NaN b = False"
| "dge a NaN = False"
| "dge PInf b = True"
| "dge a NInf = True"
| "dge (Fin x) (Fin y) = (y \<le> x)"
| "dge (Fin x) PInf = False"
| "dge NInf b = False"

text \<open>\<^verbatim>\<open>v > 0\<close> and \<^verbatim>\<open>v === 0\<close>.\<close>

fun is_positive :: "double \<Rightarrow> bool" where
  "is_positive (Fin x) = (0 < x)"
| "is_positive PInf = True"
| "is_positive d = False"

fun is_zero :: "double \<Rightarrow> bool" where
  "is_zero (Fin x) = (x = 0)"
| "is_zero d = False"

text \<open>\<^verbatim>\<open>Math.round\<close>: the integer nearest to a finite number, a half towards
  \<open>+\<infinity>\<close>; an infinity or \<^verbatim>\<open>NaN\<close> is returned as it is.\<close>

fun math_round :: "double \<Rightarrow> double" where
  "math_round (Fin x) = Fin (real_of_int \<lfloor>x + 1 / 2\<rfloor>)"
| "math_round d = d"

section \<open>JSON values\<close>

text \<open>
  Values as \<^verbatim>\<open>JSON.parse\<close> and the remote index return them. An object is the list
  of its properties, a property name being written as a \<^typ>\<open>string\<close>.
\<close>

datatype jsval =
    JUndefined
  | JNull
  | JBool bool
  | JNum double
  | JStr jsstring
  | JArr "jsval list"
  | JObj "(string \<times> jsval) list"

text \<open>An \<^verbatim>\<open>Error\<close> object, by its message.\<close>

datatype js_error = JsError jsstring

text \<open>Truthiness, as \<^verbatim>\<open>!v\<close> and \<^verbatim>\<open>v || d\<close> test it.\<close>

fun truthy :: "jsval \<Rightarrow> bool" where
  "truthy JUndefined = False"
| "truthy JNull = False"
| "truthy (JBool b) = b"
| "truthy (JNum d) = (case d of Fin x \<Rightarrow> x \<noteq> 0 | NaN \<Rightarrow> False | _ \<Rightarrow> True)"
| "truthy (JStr s) = (s \<noteq> [])"
| "truthy (JArr xs) = True"
| "truthy (JObj kvs) = True"

definition js_or :: "jsval \<Rightarrow> jsval \<Rightarrow> jsval" where
  "js_or v d = (if truthy v then v else d)"

text \<open>Property access \<^verbatim>\<open>obj?.key\<close> on a value that is an object or absent.\<close>

definition get_prop :: "(string \<times> jsval) list option \<Rightarrow> string \<Rightarrow> jsval" where
  "get_prop obj key =
     (case obj of None \<Rightarrow> JUndefined
      | Some kvs \<Rightarrow> (case map_of kvs key of None \<Rightarrow> JUndefined | Some v \<Rightarrow> v))"

section \<open>The linear-scan store (lib/local-storage.js)\<close>

record book_chunk =
  chunk_id :: jsval
  content :: jsstring
  embedding :: "double list"
  metadata :: "(string \<times> jsval) list option"

text \<open>A search result \<^verbatim>\<open>{ ...chunk, similarity }\<close>.\<close>

record scored_chunk = book_chunk +
  similarity :: double

definition with_similarity :: "book_chunk \<Rightarrow> double \<Rightarrow> scored_chunk" where
  "with_similarity chunk sim =
     \<lparr>chunk_id = chunk_id chunk, content = content chunk, embedding = embedding chunk,
      metadata = metadata chunk, similarity = sim\<rparr>"

text \<open>
  The backing file \<^verbatim>\<open>book-chunks.json\<close> as \<^verbatim>\<open>loadBookChunks\<close> finds it: absent,
  present but failing \<^verbatim>\<open>readFileSync\<close>, present but failing \<^verbatim>\<open>JSON.parse\<close>, or
  holding the array written by \<^verbatim>\<open>saveBookChunks\<close>.
\<close>

datatype chunks_file =
    FileMissing
  | FileUnreadable
  | FileInvalidJson
  | FileChunks "book_chunk list"

text \<open>\<^verbatim>\<open>loadBookChunks\<close>: the early return and the \<^verbatim>\<open>catch\<close> both return \<^verbatim>\<open>[]\<close>.\<close>

fun loadBookChunks :: "chunks_file \<Rightarrow> book_chunk list" where
  "loadBookChunks FileMissing = []"
| "loadBookChunks FileUnreadable = []"
| "loadBookChunks FileInvalidJson = []"
| "loadBookChunks (FileChunks chunks) = chunks"

text \<open>The three accumulators of the loop of \<^verbatim>\<open>cosineSimilarity\<close>, over the index range
  of two vectors of equal length.\<close>

definition dot_and_norms :: "double list \<Rightarrow> double list \<Rightarrow> double \<times> double \<times> double" where
  "dot_and_norms vecA vecB =
     fold (\<lambda>(a, b) (dotProduct, normA, normB).
             (dadd dotProduct (dmul a b), dadd normA (dmul a a), dadd normB (dmul b b)))
          (zip vecA vecB) (Fin 0, Fin 0, Fin 0)"

definition cosineSimilarity :: "double list \<Rightarrow> double list \<Rightarrow> js_error + double" where
  "cosineSimilarity vecA vecB =
     (if length vecA \<noteq> length vecB
      then Inl (JsError (js ''Vectors must have the same length''))
      else case dot_and_norms vecA vecB of (dotProduct, normA2, normB2) \<Rightarrow>
        let normA = dsqrt normA2; normB = dsqrt normB2
        in if is_zero normA \<or> is_zero normB then Inr (Fin 0)
           else Inr (ddiv dotProduct (dmul normA normB)))"

text \<open>\<^verbatim>\<open>chunks.map(chunk => ({...chunk, similarity}))\<close>: the first throwing call of
  \<^verbatim>\<open>cosineSimilarity\<close> aborts the map.\<close>

fun score_chunks :: "double list \<Rightarrow> book_chunk list \<Rightarrow> js_error + scored_chunk list" where
  "score_chunks queryEmbedding [] = Inr []"
| "score_chunks queryEmbedding (chunk # chunks) =
     (case cosineSimilarity queryEmbedding (embedding chunk) of
        Inl e \<Rightarrow> Inl e
      | Inr sim \<Rightarrow>
          (case score_chunks queryEmbedding chunks of
             Inl e \<Rightarrow> Inl e
           | Inr rest \<Rightarrow> Inr (with_similarity chunk sim # rest)))"

text \<open>
  \<^verbatim>\<open>Array.prototype.sort(compare)\<close> is a stable sort: \<open>a\<close> is placed after \<open>b\<close> only
  when \<open>compare a b\<close> is positive, and a result that is zero or \<^verbatim>\<open>NaN\<close> leaves the
  two in their order. On a comparator that orders its arguments consistently every
  stable sort gives the same array; it is written here as the insertion of each
  element, from the last to the first, in front of the sorted rest.
\<close>

fun insert_by :: "('a \<Rightarrow> 'a \<Rightarrow> double) \<Rightarrow> 'a \<Rightarrow> 'a list \<Rightarrow> 'a list" where
  "insert_by compare a [] = [a]"
| "insert_by compare a (b # bs) =
     (if is_positive (compare a b) then b # insert_by compare a bs else a # b # bs)"

definition js_sort :: "('a \<Rightarrow> 'a \<Rightarrow> double) \<Rightarrow> 'a list \<Rightarrow> 'a list" where
  "js_sort compare xs = foldr (insert_by compare) xs []"

text \<open>\<^verbatim>\<open>searchBookChunks\<close> of the linear-scan store; \<open>matchCount\<close> is a count. The
  \<^verbatim>\<open>catch\<close> logs and rethrows.\<close>

definition searchBookChunks ::
  "chunks_file \<Rightarrow> double list \<Rightarrow> double \<Rightarrow> nat \<Rightarrow> js_error + scored_chunk list" where
  "searchBookChunks file queryEmbedding matchThreshold matchCount =
     (let chunks = loadBookChunks file
      in if length chunks = 0 then Inr []
         else case score_chunks queryEmbedding chunks of
                Inl e \<Rightarrow> Inl e
              | Inr similarities \<Rightarrow>
                  Inr (take matchCount
                        (js_sort (\<lambda>a b. dsub (similarity b) (similarity a))
                          (filter (\<lambda>chunk. dge (similarity chunk) matchThreshold)
                             similarities))))"

section \<open>The retrieval entry point (app/api/chat/route.js)\<close>

text \<open>The body of the request: \<^verbatim>\<open>request.json()\<close> throws a \<^verbatim>\<open>SyntaxError\<close> with
  some message, or yields a value.\<close>

datatype request_body = InvalidJson jsstring | JsonBody jsval

text \<open>\<^verbatim>\<open>const { question } = await request.json()\<close>: destructuring \<^verbatim>\<open>null\<close> throws a
  \<^verbatim>\<open>TypeError\<close> (the message is the one of V8); a value without the property gives
  \<^verbatim>\<open>undefined\<close>.\<close>

fun question_of :: "request_body \<Rightarrow> js_error + jsval" where
  "question_of (InvalidJson message) = Inl (JsError message)"
| "question_of (JsonBody JNull) =
     Inl (JsError (js ''Cannot destructure property 'question' of '(intermediate value)' as it is null.''))"
| "question_of (JsonBody JUndefined) =
     Inl (JsError (js ''Cannot destructure property 'question' of '(intermediate value)' as it is undefined.''))"
| "question_of (JsonBody (JObj kvs)) = Inr (get_prop (Some kvs) ''question'')"
| "question_of (JsonBody v) = Inr JUndefined"

text \<open>The external collaborators of the handler: the embedding provider, the store's
  search (the remote index of lib/supabase.js) and the generative model.\<close>

record services =
  generateEmbedding :: "jsstring \<Rightarrow> js_error + double list"
  searchStore :: "double list \<Rightarrow> double \<Rightarrow> nat \<Rightarrow> js_error + scored_chunk list"
  generateChatResponse :: "jsstring \<Rightarrow> scored_chunk list \<Rightarrow> js_error + jsstring"

text \<open>The calls the handler makes, in order.\<close>

datatype call =
    EmbedCall jsstring
  | SearchCall "double list" double nat
  | ChatCall jsstring "scored_chunk list"

record source =
  source_id :: jsval
  bookTitle :: jsval
  chunkIndex :: jsval
  pageNumber :: jsval
  source_chapter :: jsval
  source_similarity :: double
  preview :: jsstring

datatype response_body =
    ErrorBody jsstring
  | AnswerBody (answer: jsstring) (sources: "source list") (confidence: double)
      (chunksFound: nat)

record response =
  status :: nat
  body :: response_body

definition not_found_answer :: jsstring where
  "not_found_answer = js ''I cannot find any relevant information about that topic in the available books. Could you try rephrasing your question or asking about a different topic?''"

text \<open>One element of \<^verbatim>\<open>topChunks.map((chunk, index) => ...)\<close>. The literal
  \<^verbatim>\<open>100\<close> is a double.\<close>

definition source_of :: "nat \<Rightarrow> scored_chunk \<Rightarrow> source" where
  "source_of index chunk =
     \<lparr>source_id = chunk_id chunk,
      bookTitle = js_or (get_prop (metadata chunk) ''book_title'') (JStr (js ''Unknown Book'')),
      chunkIndex = js_or (get_prop (metadata chunk) ''chunk_index'') (JNum (of_count index)),
      pageNumber = js_or (get_prop (metadata chunk) ''page_number'') JNull,
      source_chapter = js_or (get_prop (metadata chunk) ''chapter'') JNull,
      source_similarity = math_round (dmul (similarity chunk) (Fin 100)),
      preview = take 200 (content chunk) @ js ''...''\<rparr>"

definition averageConfidence :: "scored_chunk list \<Rightarrow> double" where
  "averageConfidence topChunks =
     (if length topChunks > 0
      then math_round
             (dmul (ddiv (fold (\<lambda>chunk sum. dadd sum (similarity chunk)) topChunks (Fin 0))
                         (of_count (length topChunks)))
                   (Fin 100))
      else Fin 0)"

text \<open>The \<^verbatim>\<open>catch\<close> of the handler.\<close>

definition internal_error :: "js_error \<Rightarrow> response" where
  "internal_error e =
     (case e of JsError msg \<Rightarrow>
        \<lparr>status = 500, body = ErrorBody (js ''An unexpected error occurred: '' @ msg)\<rparr>)"

text \<open>The handler from the non-empty result set on.\<close>

definition answer_from ::
  "services \<Rightarrow> jsstring \<Rightarrow> scored_chunk list \<Rightarrow> call list \<Rightarrow> response \<times> call list" where
  "answer_from env question relevantChunks calls =
     (let topChunks = take 5 relevantChunks;
          calls = calls @ [ChatCall question topChunks]
      in case generateChatResponse env question topChunks of
           Inl e \<Rightarrow> (internal_error e, calls)
         | Inr answerText \<Rightarrow>
             (\<lparr>status = 200,
               body = AnswerBody answerText
                        (map (\<lambda>(index, chunk). source_of index chunk) (enumerate 0 topChunks))
                        (averageConfidence topChunks)
                        (length relevantChunks)\<rparr>, calls))"

text \<open>The handler from the embedded question on: the three searches, each later one
  made only when \<^verbatim>\<open>relevantChunks.length === 0\<close>.\<close>

definition retrieve ::
  "services \<Rightarrow> jsstring \<Rightarrow> double list \<Rightarrow> call list \<Rightarrow> response \<times> call list" where
  "retrieve env question questionEmbedding calls =
     (let calls = calls @ [SearchCall questionEmbedding (js_literal (3 / 10)) 10]
      in case searchStore env questionEmbedding (js_literal (3 / 10)) 10 of
           Inl e \<Rightarrow> (internal_error e, calls)
         | Inr relevantChunks \<Rightarrow>
     (if length relevantChunks = 0
      then let calls = calls @ [SearchCall questionEmbedding (js_literal (2 / 10)) 15]
           in case searchStore env questionEmbedding (js_literal (2 / 10)) 15 of
                Inl e \<Rightarrow> (internal_error e, calls)
              | Inr relevantChunks \<Rightarrow>
          (if length relevantChunks = 0
           then let calls = calls @ [SearchCall questionEmbedding (js_literal (1 / 10)) 20]
                in case searchStore env questionEmbedding (js_literal (1 / 10)) 20 of
                     Inl e \<Rightarrow> (internal_error e, calls)
                   | Inr relevantChunks \<Rightarrow>
               (if length relevantChunks = 0
                then (\<lparr>status = 200, body = AnswerBody not_found_answer [] (Fin 0) 0\<rparr>, calls)
                else answer_from env question relevantChunks calls)
           else answer_from env question relevantChunks calls)
      else answer_from env question relevantChunks calls))"

text \<open>\<^verbatim>\<open>typeof v === 'string'\<close>, and the characters of a string value.\<close>

fun is_string :: "jsval \<Rightarrow> bool" where
  "is_string (JStr s) = True"
| "is_string v = False"

fun string_of :: "jsval \<Rightarrow> jsstring" where
  "string_of (JStr s) = s"
| "string_of v = []"

text \<open>
  \<^verbatim>\<open>POST\<close>: the response and the calls made to the collaborators. The operator
  \<^verbatim>\<open>||\<close> evaluates \<^verbatim>\<open>question.trim()\<close> and \<^verbatim>\<open>question.length\<close> only for a string.
\<close>

definition POST :: "services \<Rightarrow> request_body \<Rightarrow> response \<times> call list" where
  "POST env request =
     (case question_of request of
        Inl e \<Rightarrow> (internal_error e, [])
      | Inr question \<Rightarrow>
          if \<not> truthy question \<or> \<not> is_string question
             \<or> length (trim (string_of question)) = 0
          then (\<lparr>status = 400,
                 body = ErrorBody (js ''Question is required and must be a non-empty string'')\<rparr>, [])
          else if length (string_of question) > 1000
          then (\<lparr>status = 400,
                 body = ErrorBody
                          (js ''Question is too long. Please keep it under 1000 characters.'')\<rparr>, [])
          else case generateEmbedding env (string_of question) of
                 Inl e \<Rightarrow> (internal_error e, [EmbedCall (string_of question)])
               | Inr questionEmbedding \<Rightarrow>
                   retrieve env (string_of question) questionEmbedding
                     [EmbedCall (string_of question)])"

section \<open>The upload pipeline (scripts/upload-to-supabase.js)\<close>

text \<open>
  The first replacement of \<^verbatim>\<open>cleanText\<close>, \<^verbatim>\<open>/<[^>]*>/g\<close>: a \<^verbatim>\<open><\<close> with a \<^verbatim>\<open>>\<close>
  somewhere after it is removed up to and including the first such \<^verbatim>\<open>>\<close>.
\<close>

function strip_tags :: "jsstring \<Rightarrow> jsstring" where
  "strip_tags [] = []"
| "strip_tags (c # cs) =
     (if c = 60 \<and> 62 \<in> set cs
      then strip_tags (tl (dropWhile (\<lambda>x. x \<noteq> 62) cs))
      else c # strip_tags cs)"
  by pat_completeness auto
termination
proof (relation "measure length")
  fix c :: code_unit and cs :: jsstring
  have "length (tl (dropWhile (\<lambda>x. x \<noteq> 62) cs)) \<le> length cs"
    using length_dropWhile_le [of "\<lambda>x. x \<noteq> 62" cs] by simp
  then show "(tl (dropWhile (\<lambda>x. x \<noteq> 62) cs), c # cs) \<in> measure length" by simp
qed simp_all

text \<open>The second replacement, \<^verbatim>\<open>/\s+/g\<close> by one space.\<close>

function collapse_spaces :: "jsstring \<Rightarrow> jsstring" where
  "collapse_spaces [] = []"
| "collapse_spaces (c # cs) =
     (if is_space c then 32 # collapse_spaces (dropWhile is_space cs)
      else c # collapse_spaces cs)"
  by pat_completeness auto
termination
proof (relation "measure length")
  fix c :: code_unit and cs :: jsstring
  show "(dropWhile is_space cs, c # cs) \<in> measure length"
    using length_dropWhile_le [of is_space cs] by simp
qed simp_all

text \<open>
  The third replacement, \<^verbatim>\<open>/\n\s*\n/g\<close> by one line feed: a line feed whose following
  run of whitespace holds another line feed is replaced, together with the run up to
  its last line feed.
\<close>

function collapse_blank_lines :: "jsstring \<Rightarrow> jsstring" where
  "collapse_blank_lines [] = []"
| "collapse_blank_lines (c # cs) =
     (let run = takeWhile is_space cs
      in if c = 10 \<and> 10 \<in> set run
         then 10 # collapse_blank_lines
                (drop (length run - length (takeWhile (\<lambda>x. x \<noteq> 10) (rev run))) cs)
         else c # collapse_blank_lines cs)"
  by pat_completeness auto
termination
  by (relation "measure length") simp_all

definition cleanText :: "jsstring \<Rightarrow> jsstring" where
  "cleanText text = trim (collapse_blank_lines (collapse_spaces (strip_tags text)))"

text \<open>A row of the table \<^verbatim>\<open>book_chunks\<close>, as the script inserts it.\<close>

record db_row =
  row_content :: jsstring
  row_embedding :: "double list"
  row_metadata :: "(string \<times> jsval) list"

text \<open>The book file: its path, \<^verbatim>\<open>path.extname\<close> in lower case, \<^verbatim>\<open>path.basename\<close>
  without the extension, and what \<^verbatim>\<open>readFileSync\<close> gives.\<close>

record book_file =
  file_path :: jsstring
  file_ext :: jsstring
  file_title :: jsstring
  file_content :: "js_error + jsstring"

text \<open>
  The collaborators of the upload: the embedding provider, the outcome of the delete
  request for a title, the outcome of the insert request for the batch that starts at
  an index, and the clock.
\<close>

record ingest_services =
  embedText :: "jsstring \<Rightarrow> js_error + double list"
  deleteError :: "jsstring \<Rightarrow> js_error option"
  insertError :: "nat \<Rightarrow> js_error option"
  timestamp :: jsstring

definition row_title :: "db_row \<Rightarrow> jsval" where
  "row_title row = get_prop (Some (row_metadata row)) ''book_title''"

text \<open>\<^verbatim>\<open>clearBookChunks\<close>: deletes the rows whose \<^verbatim>\<open>metadata->>book_title\<close> is the
  title, or throws and leaves the table as it is.\<close>

definition clearBookChunks ::
  "ingest_services \<Rightarrow> db_row list \<Rightarrow> jsstring \<Rightarrow> js_error + db_row list" where
  "clearBookChunks env db title =
     (case deleteError env title of
        Some e \<Rightarrow> Inl e
      | None \<Rightarrow> Inr (filter (\<lambda>row. row_title row \<noteq> JStr title) db))"

text \<open>The loop of \<^verbatim>\<open>uploadChunksToSupabase\<close>: one insert request for each batch of ten;
  a failed request inserts nothing and its error is rethrown.\<close>

function upload_loop ::
  "ingest_services \<Rightarrow> db_row list \<Rightarrow> nat \<Rightarrow> nat \<Rightarrow> db_row list \<Rightarrow> (js_error + nat) \<times> db_row list"
  where
  "upload_loop env chunks i uploadedCount db =
     (if i < length chunks
      then let batch = take 10 (drop i chunks)
           in case insertError env i of
                Some e \<Rightarrow> (Inl e, db)
              | None \<Rightarrow> upload_loop env chunks (i + 10) (uploadedCount + length batch) (db @ batch)
      else (Inr uploadedCount, db))"
  by pat_completeness auto
termination
  by (relation "measure (\<lambda>(env, chunks, i, uploadedCount, db). length chunks - i)") simp_all

declare upload_loop.simps [simp del]

definition uploadChunksToSupabase ::
  "ingest_services \<Rightarrow> db_row list \<Rightarrow> db_row list \<Rightarrow> jsstring
     \<Rightarrow> (js_error + nat) \<times> db_row list"
  where
  "uploadChunksToSupabase env db chunks title = upload_loop env chunks 0 0 db"

text \<open>The object built for the chunk at \<open>globalIndex\<close> once its embedding is there.\<close>

definition make_row ::
  "ingest_services \<Rightarrow> book_file \<Rightarrow> nat \<Rightarrow> jsstring \<Rightarrow> double list \<Rightarrow> db_row" where
  "make_row env file globalIndex chunk emb =
     \<lparr>row_content = chunk,
      row_embedding = emb,
      row_metadata =
        [(''book_title'', JStr (file_title file)),
         (''chunk_index'', JNum (of_count globalIndex)),
         (''chunk_length'', JNum (of_count (length chunk))),
         (''estimated_tokens'', JNum (of_count (estimateTokens chunk))),
         (''file_path'', JStr (file_path file)),
         (''file_type'', JStr (file_ext file)),
         (''estimated_page'', JNum (of_count (globalIndex div 3 + 1))),
         (''uploaded_at'', JStr (timestamp env))]\<rparr>"

text \<open>One batch of embeddings: a chunk whose embedding fails gives \<^verbatim>\<open>null\<close>, which
  \<^verbatim>\<open>filter(Boolean)\<close> drops.\<close>

definition embed_batch ::
  "ingest_services \<Rightarrow> book_file \<Rightarrow> nat \<Rightarrow> jsstring list \<Rightarrow> db_row list" where
  "embed_batch env file i batch =
     List.map_filter
       (\<lambda>(globalIndex, chunk).
          case embedText env chunk of
            Inl e \<Rightarrow> None
          | Inr emb \<Rightarrow> Some (make_row env file globalIndex chunk emb))
       (enumerate i batch)"

function embed_loop ::
  "ingest_services \<Rightarrow> book_file \<Rightarrow> jsstring list \<Rightarrow> nat \<Rightarrow> db_row list \<Rightarrow> db_row list"
  where
  "embed_loop env file textChunks i processedChunks =
     (if i < length textChunks
      then embed_loop env file textChunks (i + 5)
             (processedChunks @ embed_batch env file i (take 5 (drop i textChunks)))
      else processedChunks)"
  by pat_completeness auto
termination
  by (relation "measure (\<lambda>(env, file, textChunks, i, processedChunks). length textChunks - i)")
     simp_all

declare embed_loop.simps [simp del]

text \<open>
  \<^verbatim>\<open>processBookToSupabase\<close>: the number it returns and the table it leaves. Every
  error is caught and gives \<open>0\<close>; what was deleted or inserted before the error stays.
\<close>

definition processBookToSupabase ::
  "ingest_services \<Rightarrow> db_row list \<Rightarrow> book_file \<Rightarrow> bool \<Rightarrow> nat \<times> db_row list" where
  "processBookToSupabase env db file clearExisting =
     (if file_ext file \<noteq> js ''.txt'' then (0, db)
      else case (if clearExisting then clearBookChunks env db (file_title file) else Inr db) of
        Inl e \<Rightarrow> (0, db)
      | Inr db1 \<Rightarrow>
          (case file_content file of
             Inl e \<Rightarrow> (0, db1)
           | Inr fileText \<Rightarrow>
               if length fileText < 100 then (0, db1)
               else let cleanedContent = cleanText fileText;
                        textChunks = splitTextIntoChunks cleanedContent 400 50;
                        processedChunks = embed_loop env file textChunks 0 []
                    in case uploadChunksToSupabase env db1 processedChunks (file_title file) of
                         (Inl e, db2) \<Rightarrow> (0, db2)
                       | (Inr uploadedCount, db2) \<Rightarrow> (uploadedCount, db2)))"

section \<open>Vocabulary of the statements\<close>

subsection \<open>Numbers\<close>

text \<open>
  The values that \<^verbatim>\<open>>=\<close> orders: the infinities and the finite doubles, which
  are multiples of the least positive double \<open>2 ^ -1074\<close>; not \<^verbatim>\<open>NaN\<close>.
\<close>

definition ordered_value :: "double \<Rightarrow> bool" where
  "ordered_value d =
     (case d of
        Fin y \<Rightarrow> (\<exists>k::int. y = real_of_int k * 2 powr (- 1074))
      | NaN \<Rightarrow> False
      | _ \<Rightarrow> True)"

subsection \<open>Chunker\<close>

text \<open>The sentence sequence of a text: what the loop appends, one element per
  iteration.\<close>

definition sentences_of :: "jsstring \<Rightarrow> jsstring list" where
  "sentences_of text = map (\<lambda>s. trim s @ js ''.'') (raw_sentences text)"

text \<open>Removing from each chunk but the first the region seeded from the chunk before
  it: the seed and the space that follows it.\<close>

fun strip_from :: "nat \<Rightarrow> jsstring \<Rightarrow> jsstring list \<Rightarrow> jsstring list" where
  "strip_from overlap p [] = []"
| "strip_from overlap p (c # cs) =
     drop (length (overlap_seed overlap p) + 1) c # strip_from overlap c cs"

fun strip_seeds :: "nat \<Rightarrow> jsstring list \<Rightarrow> jsstring list" where
  "strip_seeds overlap [] = []"
| "strip_seeds overlap (c # cs) = c # strip_from overlap c cs"

text \<open>The words of \<open>cur\<close> begin with the last \<open>overlap\<close> words of \<open>prev\<close>, or with
  all its words when it has fewer.\<close>

definition seed_prefix_ok :: "nat \<Rightarrow> jsstring \<Rightarrow> jsstring \<Rightarrow> bool" where
  "seed_prefix_ok overlap prev cur =
     (let ws = split_re is_space prev
      in take (min overlap (length ws)) (split_re is_space cur) = drop (length ws - overlap) ws)"

text \<open>A string that is not empty and has no whitespace at either end.\<close>

definition tidy :: "jsstring \<Rightarrow> bool" where
  "tidy s \<longleftrightarrow> s \<noteq> [] \<and> \<not> is_space (hd s) \<and> \<not> is_space (last s)"

definition seeded :: "nat \<Rightarrow> jsstring list \<Rightarrow> bool" where
  "seeded overlap cs \<longleftrightarrow>
     (\<forall>i. Suc i < length cs \<longrightarrow> prefix (overlap_seed overlap (cs ! i) @ [32]) (cs ! Suc i))"

text \<open>The invariant of the loop of \<^verbatim>\<open>splitTextIntoChunks\<close> after the sentences \<open>ps\<close>.\<close>

definition chunker_inv :: "nat \<Rightarrow> jsstring list \<Rightarrow> chunker_state \<Rightarrow> bool" where
  "chunker_inv overlap ps st =
     (case st of (chunks, cur, toks) \<Rightarrow>
        (cur = [] \<and> chunks = [] \<and> ps = []) \<or>
        (tidy cur \<and> ps \<noteq> [] \<and> (\<forall>c\<in>set chunks. tidy c) \<and> seeded overlap (chunks @ [cur])
         \<and> join_sp (strip_seeds overlap (chunks @ [cur])) = join_sp ps))"

subsection \<open>Retrieval\<close>

text \<open>
  The relaxation of the specification: a table of (threshold, cap) steps, tried in
  order until a step fails or returns a result set that is not empty. It gives the
  outcome and the steps tried. The thresholds are the doubles nearest to 0.30, 0.20
  and 0.10.
\<close>

definition relaxation_steps :: "(double \<times> nat) list" where
  "relaxation_steps =
     [(js_literal (3 / 10), 10), (js_literal (2 / 10), 15), (js_literal (1 / 10), 20)]"

fun relax :: "(double \<Rightarrow> nat \<Rightarrow> js_error + 'a list) \<Rightarrow> (double \<times> nat) list
                \<Rightarrow> (js_error + 'a list) \<times> (double \<times> nat) list" where
  "relax search [] = (Inr [], [])"
| "relax search ((threshold, cap) # steps) =
     (case search threshold cap of
        Inl e \<Rightarrow> (Inl e, [(threshold, cap)])
      | Inr results \<Rightarrow>
          if results \<noteq> [] then (Inr results, [(threshold, cap)])
          else (case relax search steps of
                  (outcome, tried) \<Rightarrow> (outcome, (threshold, cap) # tried)))"

text \<open>The mean of a list of similarities as a rounded percentage: the sum from the
  left, divided by the count, times 100, rounded to the nearest integer.\<close>

definition mean_percentage :: "double list \<Rightarrow> double" where
  "mean_percentage sims =
     math_round (dmul (ddiv (foldl dadd (Fin 0) sims) (of_count (length sims))) (Fin 100))"

text \<open>
  The white space of the specification of the language, by code unit: tab, line feed,
  vertical tab, form feed, carriage return, space, no-break space, the Ogham space
  mark, the spaces U+2000 to U+200A, the line and paragraph separators, the narrow
  no-break space, the medium mathematical space, the ideographic space and the byte
  order mark.
\<close>

definition whitespace_units :: "code_unit list" where
  "whitespace_units =
     [9, 10, 11, 12, 13, 32, 160, 5760,
      8192, 8193, 8194, 8195, 8196, 8197, 8198, 8199, 8200, 8201, 8202,
      8232, 8233, 8239, 8287, 12288, 65279]"

text \<open>A string that is empty or holds white space only.\<close>

definition blank :: "jsstring \<Rightarrow> bool" where
  "blank s = list_all (\<lambda>c. c \<in> set whitespace_units) s"

text \<open>The question of a parsed body: its property \<^verbatim>\<open>question\<close>, and \<^verbatim>\<open>undefined\<close>
  when the body is not an object or has no such property.\<close>

fun question_property :: "jsval \<Rightarrow> jsval" where
  "question_property (JObj kvs) =
     (case map_of kvs ''question'' of None \<Rightarrow> JUndefined | Some v \<Rightarrow> v)"
| "question_property v = JUndefined"

text \<open>A question that is missing, not a string, empty, white space only, or longer
  than 1000 code units.\<close>

fun question_rejected :: "jsval \<Rightarrow> bool" where
  "question_rejected (JStr s) = (blank s \<or> length s > 1000)"
| "question_rejected v = True"

subsection \<open>Store\<close>

text \<open>The backing file is missing, unreadable or not parseable.\<close>

fun store_unavailable :: "chunks_file \<Rightarrow> bool" where
  "store_unavailable (FileChunks chunks) = False"
| "store_unavailable file = True"

text \<open>The stored chunk a search result was made from: the result without its
  similarity.\<close>

definition stored_part :: "scored_chunk \<Rightarrow> book_chunk" where
  "stored_part r =
     \<lparr>chunk_id = chunk_id r, content = content r, embedding = embedding r,
      metadata = metadata r\<rparr>"

text \<open>The order of the similarities of two results: \<open>a\<close> is at least \<open>b\<close>.\<close>

definition at_least :: "scored_chunk \<Rightarrow> scored_chunk \<Rightarrow> bool" where
  "at_least a b = dge (similarity a) (similarity b)"

subsection \<open>Upload\<close>

text \<open>A row written by a run for a book: it carries the book's title and the run's
  timestamp.\<close>

definition fresh_row :: "ingest_services \<Rightarrow> book_file \<Rightarrow> db_row \<Rightarrow> bool" where
  "fresh_row env file row \<longleftrightarrow>
     row_title row = JStr (file_title file)
     \<and> get_prop (Some (row_metadata row)) ''uploaded_at'' = JStr (timestamp env)"

subsection \<open>Example data\<close>

definition short_text :: jsstring where
  "short_text = js ''Hello world. This is short.''"

definition one_sentence_text :: jsstring where
  "one_sentence_text = js ''Burnout is a state of emotional, physical and mental exhaustion caused by prolonged and excessive stress at work.''"

definition three_sentence_text :: jsstring where
  "three_sentence_text = js ''alpha1234 bravo1234 charlie12 delta1234 echo12345 foxtrot12 golf12345. Ok. hotel1234 india1234 juliet123 kilo12345 lima12345 mike12345 november1.''"

definition two_sentence_text :: jsstring where
  "two_sentence_text = js ''alpha1234 bravo1234 charlie12 delta1234 echo12345 foxtrot12 golf12345. hotel1234 india1234 juliet123 kilo12345 lima12345 mike12345 november1.''"

text \<open>Four stored chunks, in ingestion order: the second embedding is three times the
  first, the third is orthogonal to the query \<open>[1, 0]\<close>, the fourth equals the first.\<close>

definition chunk_diagonal :: book_chunk where
  "chunk_diagonal = \<lparr>chunk_id = JStr (js ''Alpha_chunk_0''), content = js ''diagonal'',
                      embedding = [Fin 1, Fin 1], metadata = None\<rparr>"

definition chunk_long_diagonal :: book_chunk where
  "chunk_long_diagonal = \<lparr>chunk_id = JStr (js ''Alpha_chunk_1''), content = js ''long diagonal'',
                           embedding = [Fin 3, Fin 3], metadata = None\<rparr>"

definition chunk_north :: book_chunk where
  "chunk_north = \<lparr>chunk_id = JStr (js ''Alpha_chunk_2''), content = js ''north'',
                   embedding = [Fin 0, Fin 1], metadata = None\<rparr>"

definition chunk_diagonal_again :: book_chunk where
  "chunk_diagonal_again = \<lparr>chunk_id = JStr (js ''Alpha_chunk_3''), content = js ''diagonal again'',
                            embedding = [Fin 1, Fin 1], metadata = None\<rparr>"

definition compass_file :: chunks_file where
  "compass_file =
     FileChunks [chunk_diagonal, chunk_long_diagonal, chunk_north, chunk_diagonal_again]"

text \<open>The doubles \<^verbatim>\<open>0.7071067811865475\<close> and \<^verbatim>\<open>0.7071067811865476\<close>.\<close>

definition sim_diagonal :: double where
  "sim_diagonal = Fin (6369051672525772 / 2 ^ 53)"

definition sim_long_diagonal :: double where
  "sim_long_diagonal = Fin (6369051672525773 / 2 ^ 53)"

definition weak_match :: scored_chunk where
  "weak_match = \<lparr>chunk_id = JNum (Fin 7), content = js ''Rest is part of recovery.'',
                  embedding = [],
                  metadata = Some [(''book_title'', JStr (js ''Alpha'')),
                                   (''chunk_index'', JNum (Fin 3))],
                  similarity = js_literal (15 / 100)\<rparr>"

text \<open>Collaborators whose store holds a single chunk, matching at similarity 0.15.\<close>

definition weak_services :: services where
  "weak_services =
     \<lparr>generateEmbedding = (\<lambda>question. Inr [Fin 1, Fin 0]),
      searchStore = (\<lambda>v threshold cap.
                       if dge (js_literal (15 / 100)) threshold then Inr [weak_match] else Inr []),
      generateChatResponse = (\<lambda>question chunks. Inr (js ''Rest.''))\<rparr>"





definition burnout_request :: request_body where
  "burnout_request = JsonBody (JObj [(''question'', JStr (js ''What is burnout?''))])"

definition alpha_file :: book_file where
  "alpha_file = \<lparr>file_path = js ''books/Alpha.txt'', file_ext = js ''.txt'',
                  file_title = js ''Alpha'', file_content = Inr one_sentence_text\<rparr>"

definition old_row :: db_row where
  "old_row = \<lparr>row_content = js ''An old chunk of the book Alpha.'',
               row_embedding = [Fin 1, Fin 0],
               row_metadata = [(''book_title'', JStr (js ''Alpha'')),
                               (''chunk_index'', JNum (Fin 0))]\<rparr>"

definition working_upload :: ingest_services where
  "working_upload = \<lparr>embedText = (\<lambda>t. Inr [Fin 0, Fin 1]), deleteError = (\<lambda>t. None),
                      insertError = (\<lambda>i. None),
                      timestamp = js ''2024-01-01T00:00:00.000Z''\<rparr>"

definition failing_delete :: ingest_services where
  "failing_delete = \<lparr>embedText = (\<lambda>t. Inr [Fin 0, Fin 1]),
                      deleteError = (\<lambda>t. Some (JsError (js ''delete failed''))),
                      insertError = (\<lambda>i. None),
                      timestamp = js ''2024-01-01T00:00:00.000Z''\<rparr>"

definition failing_insert :: ingest_services where
  "failing_insert = \<lparr>embedText = (\<lambda>t. Inr [Fin 0, Fin 1]), deleteError = (\<lambda>t. None),
                      insertError = (\<lambda>i. Some (JsError (js ''insert failed''))),
                      timestamp = js ''2024-01-01T00:00:00.000Z''\<rparr>"

section \<open>Rounding\<close>

subsection \<open>Evaluating a rounding\<close>

lemma rne_eqI:
  assumes "\<bar>x - real_of_int m\<bar> < 1 / 2"
  shows "rne x = m"
proof -
  have lo: "real_of_int m - 1 / 2 < x" and hi: "x < real_of_int m + 1 / 2"
    using assms by linarith+
  show ?thesis
  proof (cases "real_of_int m \<le> x")
    case True
    then have f: "\<lfloor>x\<rfloor> = m" using hi by (intro floor_unique) auto
    then have "x - real_of_int \<lfloor>x\<rfloor> < 1 / 2" using hi by simp
    then show ?thesis by (simp add: rne_def Let_def f)
  next
    case False
    then have f: "\<lfloor>x\<rfloor> = m - 1" using lo by (intro floor_unique) auto
    then have "1 / 2 < x - real_of_int \<lfloor>x\<rfloor>" using lo by simp
    then show ?thesis by (simp add: rne_def Let_def f)
  qed
qed

lemma rne_int [simp]: "rne (real_of_int m) = m"
  by (rule rne_eqI) simp

lemma two_powr_neg: "(2::real) powr (- real n) = 1 / 2 ^ n"
  by (simp add: powr_minus powr_realpow divide_simps)

lemma two_powr_diff: "(2::real) powr (real k - real n) = 2 ^ k / 2 ^ n"
  by (simp add: powr_diff powr_realpow)

lemma rne_close: "\<bar>real_of_int (rne x) - x\<bar> \<le> 1 / 2"
proof -
  define d where "d = x - real_of_int \<lfloor>x\<rfloor>"
  have d: "0 \<le> d" "d < 1" unfolding d_def by linarith+
  consider "d < 1 / 2" | "1 / 2 < d" | "d = 1 / 2" by linarith
  then show ?thesis
  proof cases
    case 1
    then have "rne x = \<lfloor>x\<rfloor>" by (simp add: rne_def Let_def d_def)
    then show ?thesis using 1 d unfolding d_def by simp
  next
    case 2
    then have "rne x = \<lfloor>x\<rfloor> + 1" by (simp add: rne_def Let_def d_def)
    then show ?thesis using 2 d unfolding d_def by simp
  next
    case 3
    then have "rne x = \<lfloor>x\<rfloor> \<or> rne x = \<lfloor>x\<rfloor> + 1"
      by (simp add: rne_def Let_def d_def)
    then show ?thesis using 3 unfolding d_def by auto
  qed
qed


lemma rne_tie_odd:
  assumes "x = real_of_int m + 1 / 2" and "odd m"
  shows "rne x = m + 1"
proof -
  have f: "\<lfloor>x\<rfloor> = m" unfolding assms(1) by (intro floor_unique) simp_all
  show ?thesis using assms by (simp add: rne_def Let_def f)
qed

lemma rnd_scaled_rne:
  assumes lo: "2 ^ 52 \<le> \<bar>x\<bar> * 2 ^ n" and hi: "\<bar>x\<bar> * 2 ^ n < 2 ^ 53" and n: "n \<le> 1074"
    and m: "rne (x * 2 ^ n) = m"
  shows "rnd x = Fin (real_of_int m / 2 ^ n)"
proof -
  have x0: "x \<noteq> 0" using lo by auto
  have e1: "(2::real) powr real_of_int (52 - int n) = 2 ^ 52 / 2 ^ n"
    using two_powr_diff [of 52 n] by simp
  have e2: "(2::real) powr real_of_int (52 - int n + 1) = 2 ^ 53 / 2 ^ n"
    using two_powr_diff [of 53 n] by (simp add: algebra_simps)
  have "2 ^ 52 / 2 ^ n \<le> \<bar>x\<bar>" using lo by (simp add: field_simps)
  moreover have "\<bar>x\<bar> < 2 ^ 53 / 2 ^ n" using hi by (simp add: field_simps)
  ultimately have fl: "\<lfloor>log 2 \<bar>x\<bar>\<rfloor> = 52 - int n"
    using x0 e1 e2 floor_log_eq_powr_iff [of "\<bar>x\<bar>" 2 "52 - int n"] by simp
  have b: "binade x = 52 - int n" using n by (simp add: binade_def fl)
  have q: "(2::real) powr real_of_int (binade x - 52) = 1 / 2 ^ n"
    using two_powr_neg [of n] by (simp add: b)
  have r: "rne (x / (1 / 2 ^ n)) = m" using m by simp
  have "\<bar>x * 2 ^ n\<bar> < 2 ^ 53" using hi by (simp add: abs_mult)
  then have m53: "\<bar>real_of_int m\<bar> < 2 ^ 53 + 1"
    using rne_close [of "x * 2 ^ n"] unfolding m by linarith
  have "\<bar>real_of_int m / 2 ^ n\<bar> = \<bar>real_of_int m\<bar> / 2 ^ n" by simp
  also have "\<dots> \<le> \<bar>real_of_int m\<bar> / 1"
    by (rule divide_left_mono) simp_all
  also have "\<dots> < 2 ^ 53 + 1" using m53 by simp
  also have "\<dots> \<le> 2 powr 1024"
    by (simp add: powr_numeral [where x = "2::real"])
  finally have ov: "\<not> 2 powr 1024 \<le> \<bar>real_of_int m / 2 ^ n\<bar>" by simp
  have y: "real_of_int (rne (x / 2 powr real_of_int (binade x - 52)))
             * 2 powr real_of_int (binade x - 52) = real_of_int m / 2 ^ n"
    by (simp only: q r) simp
  show ?thesis unfolding rnd_def Let_def y using x0 ov by simp
qed

lemma rnd_scaled:
  assumes "2 ^ 52 \<le> \<bar>x\<bar> * 2 ^ n" and "\<bar>x\<bar> * 2 ^ n < 2 ^ 53" and "n \<le> 1074"
    and "\<bar>x * 2 ^ n - real_of_int m\<bar> < 1 / 2"
  shows "rnd x = Fin (real_of_int m / 2 ^ n)"
  using assms(1-3) by (rule rnd_scaled_rne) (rule rne_eqI [OF assms(4)])


lemma rnd_sqrt:
  assumes lo: "(real_of_int m - 1 / 2)\<^sup>2 < a * 4 ^ n" and hi: "a * 4 ^ n < (real_of_int m + 1 / 2)\<^sup>2"
    and m1: "2 ^ 52 < m" and m2: "m < 2 ^ 53" and n: "n \<le> 1074"
  shows "rnd (sqrt a) = Fin (real_of_int m / 2 ^ n)"
proof -
  have "2 ^ 52 + 1 \<le> m" "m + 1 \<le> 2 ^ 53" using m1 m2 by simp_all
  then have "real_of_int (2 ^ 52 + 1) \<le> real_of_int m" "real_of_int (m + 1) \<le> real_of_int (2 ^ 53)"
    by (simp_all only: of_int_le_iff)
  then have mr: "(2::real) ^ 52 + 1 \<le> real_of_int m" "real_of_int m + 1 \<le> (2::real) ^ 53"
    by simp_all
  have "0 \<le> (real_of_int m - 1 / 2)\<^sup>2" by simp
  with lo have a0: "0 \<le> a * 4 ^ n" by linarith
  have "(0::real) < 4 ^ n" by simp
  with a0 have a: "0 \<le> a" by (simp add: zero_le_mult_iff)
  define t where "t = sqrt a * 2 ^ n"
  have t: "t = sqrt (a * 4 ^ n)"
  proof -
    have "(4::real) ^ n = (2 ^ n)\<^sup>2" by (simp add: power_mult [symmetric] power2_eq_square power_mult_distrib [symmetric])
    then show ?thesis by (simp add: t_def real_sqrt_mult)
  qed
  have t1: "real_of_int m - 1 / 2 < t"
    unfolding t using lo mr by (intro real_less_rsqrt) simp
  have t2: "t < real_of_int m + 1 / 2"
    unfolding t using hi mr a0 by (intro real_less_lsqrt) simp_all
  have t0: "0 \<le> t" using a by (simp add: t_def)
  have s0: "0 \<le> sqrt a" using a by simp
  show ?thesis
  proof (rule rnd_scaled [OF _ _ n])
    show "2 ^ 52 \<le> \<bar>sqrt a\<bar> * 2 ^ n" using t1 mr s0 by (simp add: t_def)
    show "\<bar>sqrt a\<bar> * 2 ^ n < 2 ^ 53" using t2 mr s0 by (simp add: t_def)
    show "\<bar>sqrt a * 2 ^ n - real_of_int m\<bar> < 1 / 2" using t1 t2 unfolding t_def by linarith
  qed
qed

subsection \<open>The sign and the grid of a rounded value\<close>

lemma rne_bounds: "\<lfloor>x\<rfloor> \<le> rne x" "rne x \<le> \<lfloor>x\<rfloor> + 1"
  by (simp_all add: rne_def Let_def)

lemma rnd_zero [simp]: "rnd 0 = Fin 0"
  by (simp add: rnd_def)

lemma rnd_shape:
  "rnd x = Fin (real_of_int (rne (x / 2 powr real_of_int (binade x - 52)))
                 * 2 powr real_of_int (binade x - 52))
   \<or> (rnd x = PInf \<and> 0 < x) \<or> (rnd x = NInf \<and> x < 0)"
proof (cases "x = 0")
  case True
  then show ?thesis by (simp add: rne_def)
next
  case False
  then show ?thesis unfolding rnd_def Let_def by (auto simp only: if_False if_True split: if_splits)
qed

lemma quantum_le:
  assumes "2 powr (- 1074) \<le> x"
  shows "2 powr real_of_int (binade x - 52) \<le> x"
proof -
  have "(0::real) < 2 powr (- 1074)" by simp
  with assms have x: "0 < x" by linarith
  show ?thesis
  proof (cases "- 1022 \<le> \<lfloor>log 2 x\<rfloor>")
    case True
    then have b: "binade x = \<lfloor>log 2 x\<rfloor>" using x by (simp add: binade_def)
    have "real_of_int (\<lfloor>log 2 x\<rfloor> - 52) \<le> log 2 x" by simp linarith
    then have "2 powr real_of_int (\<lfloor>log 2 x\<rfloor> - 52) \<le> 2 powr log 2 x"
      by (intro powr_mono) simp_all
    then show ?thesis using x b by simp
  next
    case False
    then have b: "binade x = - 1022" using x by (simp add: binade_def)
    show ?thesis using assms by (simp add: b)
  qed
qed

lemma rnd_positive:
  assumes "2 powr (- 1074) \<le> x"
  shows "is_positive (rnd x)"
proof -
  define q where "q = 2 powr real_of_int (binade x - 52)"
  have q: "0 < q" by (simp add: q_def)
  have "(0::real) < 2 powr (- 1074)" by simp
  with assms have x: "0 < x" by linarith
  have "q \<le> x" unfolding q_def using assms by (rule quantum_le)
  then have "1 \<le> x / q" using q by (simp add: field_simps)
  then have "1 \<le> \<lfloor>x / q\<rfloor>" by linarith
  then have "1 \<le> rne (x / q)" using rne_bounds(1) [of "x / q"] by linarith
  then have "0 < real_of_int (rne (x / q)) * q" using q by simp
  then show ?thesis using rnd_shape [of x] x by (auto simp: q_def)
qed

lemma rnd_not_positive:
  assumes "x \<le> 0"
  shows "\<not> is_positive (rnd x)"
proof -
  define q where "q = 2 powr real_of_int (binade x - 52)"
  have q: "0 < q" by (simp add: q_def)
  have "rne (x / q) \<le> 0"
  proof (cases "x = 0")
    case True
    then show ?thesis by (simp add: rne_def)
  next
    case False
    then have "x / q < 0" using assms q by (simp add: field_simps)
    then have "\<lfloor>x / q\<rfloor> < 0" by (simp only: floor_less_zero)
    then show ?thesis using rne_bounds(2) [of "x / q"] by linarith
  qed
  then have "real_of_int (rne (x / q)) * q \<le> 0" using q by (simp add: mult_le_0_iff)
  then show ?thesis using rnd_shape [of x] assms by (auto simp: q_def)
qed

lemma quantum_grid:
  "\<exists>j::int. 2 powr real_of_int (binade x - 52) = real_of_int j * 2 powr (- 1074)"
proof -
  define e where "e = nat (binade x + 1022)"
  have "- 1022 \<le> binade x" by (simp add: binade_def)
  then have "real_of_int (binade x - 52) = real e + (- 1074)" by (simp add: e_def)
  then have "2 powr real_of_int (binade x - 52) = 2 powr real e * 2 powr (- 1074)"
    by (simp only: powr_add)
  also have "(2::real) powr real e = real_of_int (2 ^ e)" by (simp add: powr_realpow)
  finally show ?thesis by blast
qed

lemma rnd_ordered: "ordered_value (rnd x)"
proof -
  obtain j :: int where j: "2 powr real_of_int (binade x - 52) = real_of_int j * 2 powr (- 1074)"
    using quantum_grid by blast
  define K where "K = rne (x / 2 powr real_of_int (binade x - 52)) * j"
  have eq: "real_of_int (rne (x / 2 powr real_of_int (binade x - 52)))
              * 2 powr real_of_int (binade x - 52)
            = real_of_int K * 2 powr (- 1074)"
    unfolding K_def by (simp only: j of_int_mult mult.assoc)
  consider "rnd x = Fin (real_of_int K * 2 powr (- 1074))" | "rnd x = PInf" | "rnd x = NInf"
    using rnd_shape [of x] unfolding eq by blast
  then show ?thesis
  proof cases
    case 1
    then show ?thesis by (auto simp: ordered_value_def)
  qed (simp_all add: ordered_value_def)
qed

lemma ordered_zero [simp]: "ordered_value (Fin 0)"
  by (simp add: ordered_value_def)

lemma rnd_diff_positive:
  assumes "ordered_value (Fin x)" and "ordered_value (Fin y)"
  shows "is_positive (rnd (y - x)) \<longleftrightarrow> x < y"
proof -
  from assms obtain k l :: int where x: "x = real_of_int k * 2 powr (- 1074)"
    and y: "y = real_of_int l * 2 powr (- 1074)"
    by (auto simp: ordered_value_def)
  have g: "(0::real) < 2 powr (- 1074)" by simp
  show ?thesis
  proof (cases "x < y")
    case True
    then have "real_of_int k < real_of_int l" using x y g by (simp add: mult_less_cancel_right)
    then have "k + 1 \<le> l" by simp
    then have "real_of_int k + 1 \<le> real_of_int l" by (metis of_int_1 of_int_add of_int_le_iff)
    then have "(real_of_int k + 1) * 2 powr (- 1074) \<le> real_of_int l * 2 powr (- 1074)"
      using g by (simp only: mult_le_cancel_right) simp
    then have "2 powr (- 1074) \<le> y - x" unfolding x y by (simp add: algebra_simps)
    then show ?thesis using True rnd_positive by blast
  next
    case False
    then have "y - x \<le> 0" by simp
    then show ?thesis using False rnd_not_positive by blast
  qed
qed

lemma dsub_positive:
  assumes "ordered_value a" and "ordered_value b"
  shows "is_positive (dsub b a) \<longleftrightarrow> dge b a \<and> \<not> dge a b"
proof (cases a)
  case a: (Fin x)
  show ?thesis
  proof (cases b)
    case (Fin y)
    then show ?thesis using a assms rnd_diff_positive [of x y] by (auto simp: dsub_def)
  qed (use a assms in \<open>simp_all add: dsub_def ordered_value_def\<close>)
next
  case PInf
  then show ?thesis using assms by (cases b) (simp_all add: dsub_def ordered_value_def)
next
  case NInf
  then show ?thesis using assms by (cases b) (simp_all add: dsub_def ordered_value_def)
next
  case NaN
  then show ?thesis using assms by (simp add: ordered_value_def)
qed

lemma dsub_same: "\<not> is_positive (dsub a a)"
  by (cases a) (simp_all add: dsub_def)

lemma dge_total: "ordered_value a \<Longrightarrow> ordered_value b \<Longrightarrow> dge a b \<or> dge b a"
  by (cases a; cases b) (auto simp: ordered_value_def)

lemma dge_trans: "dge a b \<Longrightarrow> dge b c \<Longrightarrow> dge a c"
  by (cases a; cases b; cases c) simp_all

lemma dge_ordered: "dge a b \<Longrightarrow> a \<noteq> NaN"
  by (cases a) simp_all

lemma ddiv_ordered: "ddiv a b = NaN \<or> ordered_value (ddiv a b)"
proof (cases a)
  case a: (Fin x)
  show ?thesis
  proof (cases b)
    case (Fin y)
    then show ?thesis using a rnd_ordered [of "x / y"] by (simp add: ordered_value_def)
  qed (use a in \<open>simp_all add: ordered_value_def\<close>)
qed (cases b; simp add: ordered_value_def)+

lemma dmul_commute: "dmul a b = dmul b a"
  by (cases a; cases b) (simp_all add: mult.commute)

lemma rnd_lower:
  assumes "2 powr real_of_int k \<le> x" and "- 1022 \<le> k"
  shows "rnd x = PInf \<or> (\<exists>y. rnd x = Fin y \<and> 2 powr real_of_int k \<le> y)"
proof -
  define e where "e = \<lfloor>log 2 x\<rfloor>"
  define q where "q = 2 powr real_of_int (binade x - 52)"
  have "(0::real) < 2 powr real_of_int k" by simp
  with assms(1) have x: "0 < x" by linarith
  have "real_of_int k \<le> log 2 x" using assms(1) x by (simp add: le_log_iff)
  then have ke: "k \<le> e" unfolding e_def by (simp add: le_floor_iff)
  then have b: "binade x = e" using assms(2) x by (simp add: binade_def e_def)
  have q0: "0 < q" by (simp add: q_def)
  have "real_of_int e \<le> log 2 x" unfolding e_def by simp
  then have "2 powr real_of_int e \<le> 2 powr log 2 x" by (intro powr_mono) simp_all
  then have ex: "2 powr real_of_int e \<le> x" using x by simp
  have qe: "2 powr real_of_int e = 2 ^ 52 * q"
  proof -
    have "real_of_int e = 52 + real_of_int (e - 52)" by simp
    then have "2 powr real_of_int e = 2 powr 52 * 2 powr real_of_int (e - 52)"
      by (simp only: powr_add)
    then show ?thesis by (simp add: q_def b)
  qed
  have "2 ^ 52 \<le> x / q" using ex q0 unfolding qe by (simp add: field_simps)
  then have "real_of_int (2 ^ 52) \<le> x / q" by simp
  then have "2 ^ 52 \<le> \<lfloor>x / q\<rfloor>" by (simp only: le_floor_iff)
  then have "2 ^ 52 \<le> rne (x / q)" using rne_bounds(1) [of "x / q"] by linarith
  then have "real_of_int (2 ^ 52) \<le> real_of_int (rne (x / q))" by (simp only: of_int_le_iff)
  then have "2 ^ 52 * q \<le> real_of_int (rne (x / q)) * q" using q0 by simp
  then have "2 powr real_of_int e \<le> real_of_int (rne (x / q)) * q" by (simp only: qe)
  moreover have "2 powr real_of_int k \<le> 2 powr real_of_int e"
    using ke by (intro powr_mono) simp_all
  ultimately have "2 powr real_of_int k \<le> real_of_int (rne (x / q)) * q" by linarith
  then show ?thesis using rnd_shape [of x] x unfolding q_def by auto
qed

lemma dadd_ordered: "dadd a b = NaN \<or> ordered_value (dadd a b)"
proof (cases a)
  case a: (Fin x)
  show ?thesis
  proof (cases b)
    case (Fin y)
    then show ?thesis using a rnd_ordered [of "x + y"] by simp
  qed (use a in \<open>simp_all add: ordered_value_def\<close>)
qed (cases b; simp add: ordered_value_def)+

lemma positive_not_zero: "is_positive d \<Longrightarrow> \<not> is_zero d"
  by (cases d) simp_all

lemma sqrt_least: "sqrt (2 powr (- 1074)) = 2 powr (- 537)"
proof -
  have "sqrt (2 powr (- 1074)) = (2 powr (- 1074)) powr (1 / 2)"
    by (simp add: powr_half_sqrt)
  also have "\<dots> = 2 powr (- 1074 * (1 / 2))" by (simp only: powr_powr)
  finally show ?thesis by simp
qed

section \<open>The chunker: sentences, seeds and the length filter\<close>

subsection \<open>Splitting and joining\<close>

lemma js_dot [simp]: "js ''.'' = [46]"
  by (simp add: js_def)

lemma js_sp [simp]: "js '' '' = [32]"
  by (simp add: js_def)

lemma js_empty [simp]: "js '''' = []"
  by (simp add: js_def)

lemma split_re_unfold:
  "split_re sep s =
     (if dropWhile (\<lambda>c. \<not> sep c) s = [] then [takeWhile (\<lambda>c. \<not> sep c) s]
      else takeWhile (\<lambda>c. \<not> sep c) s # split_re sep (dropWhile sep (dropWhile (\<lambda>c. \<not> sep c) s)))"
  by (subst split_re.simps) (simp add: Let_def)

lemma split_re_not_Nil: "split_re sep s \<noteq> []"
  by (subst split_re_unfold) simp

lemma split_re_piece:
  assumes "\<forall>c\<in>set w. \<not> sep c" and "sep x"
  shows "split_re sep (w @ x # r) = w # split_re sep (dropWhile sep r)"
proof -
  have t: "takeWhile (\<lambda>c. \<not> sep c) (w @ x # r) = w"
    using assms by (simp add: takeWhile_append2)
  have d: "dropWhile (\<lambda>c. \<not> sep c) (w @ x # r) = x # r"
    using assms by (simp add: dropWhile_append2)
  show ?thesis
    by (subst split_re_unfold) (simp add: t d assms)
qed

lemma split_re_no_sep:
  "\<forall>c\<in>set w. \<not> sep c \<Longrightarrow> split_re sep w = [w]"
  by (subst split_re_unfold) (simp add: dropWhile_eq_Nil_conv)

lemma is_space_sp [simp]: "is_space (32)"
  by (simp add: is_space_def)

lemma not_space_dot [simp]: "\<not> is_space (46)"
  by (simp add: is_space_def)

text \<open>A no-break space separates words: \<^verbatim>\<open>estimateTokens\<close> of the three code units
  \<^verbatim>\<open>a\<close>, U+00A0, \<^verbatim>\<open>b\<close> is \<^verbatim>\<open>Math.ceil(2 / 0.75)\<close>, that is 3.\<close>

lemma no_break_space_splits:
  "split_re is_space [97, 160, 98] = [[97], [98]]" "estimateTokens [97, 160, 98] = 3"
  by code_simp+

lemma split_join:
  assumes "vs \<noteq> []" and "\<forall>v\<in>set vs. v \<noteq> [] \<and> (\<forall>c\<in>set v. \<not> is_space c)"
  shows "split_re is_space (join_sp vs @ [32] @ r) = vs @ split_re is_space (dropWhile is_space r)"
  using assms
proof (induction vs rule: join_sp.induct)
  case 1
  then show ?case by simp
next
  case (2 w)
  then show ?case using split_re_piece [of w is_space "32" r] by simp
next
  case (3 w v ws)
  let ?t = "join_sp (v # ws) @ [32] @ r"
  have w: "\<forall>c\<in>set w. \<not> is_space c" using 3 by simp
  have "v \<noteq> []" "\<forall>c\<in>set v. \<not> is_space c" using 3 by auto
  then have "\<not> is_space (hd v)" by (cases v) auto
  moreover have "hd ?t = hd v" using \<open>v \<noteq> []\<close> by (cases ws) auto
  moreover have "?t \<noteq> []" by simp
  ultimately have dw: "dropWhile is_space ?t = ?t" by (cases ?t) auto
  have "split_re is_space (join_sp (w # v # ws) @ [32] @ r)
          = split_re is_space (w @ 32 # ?t)" by simp
  also have "\<dots> = w # split_re is_space (dropWhile is_space ?t)"
    using split_re_piece [of w is_space "32" ?t] w by simp
  also have "\<dots> = w # split_re is_space ?t" by (simp only: dw)
  also have "\<dots> = w # (v # ws) @ split_re is_space (dropWhile is_space r)"
    using 3 by simp
  finally show ?case by simp
qed

lemma split_re_Nil_rest:
  "dropWhile (\<lambda>c. \<not> sep c) s = [] \<Longrightarrow> split_re sep s = [takeWhile (\<lambda>c. \<not> sep c) s]"
  using split_re_unfold [of sep s] by (simp only: if_True refl)

lemma split_re_Cons_rest:
  "dropWhile (\<lambda>c. \<not> sep c) s \<noteq> [] \<Longrightarrow>
   split_re sep s = takeWhile (\<lambda>c. \<not> sep c) s
                      # split_re sep (dropWhile sep (dropWhile (\<lambda>c. \<not> sep c) s))"
  using split_re_unfold [of sep s] by (simp only: if_False)

lemma split_re_sep_free:
  "w \<in> set (split_re sep s) \<Longrightarrow> c \<in> set w \<Longrightarrow> \<not> sep c"
proof (induction sep s rule: split_re.induct)
  case (1 sep s)
  define piece where "piece = takeWhile (\<lambda>c. \<not> sep c) s"
  define rest where "rest = dropWhile (\<lambda>c. \<not> sep c) s"
  have pf: "\<And>c. c \<in> set piece \<Longrightarrow> \<not> sep c"
    unfolding piece_def by (auto dest: set_takeWhileD)
  show ?case
  proof (cases "rest = []")
    case True
    then have "split_re sep s = [piece]"
      unfolding rest_def piece_def by (rule split_re_Nil_rest)
    then show ?thesis using "1.prems" pf by simp
  next
    case False
    then have "split_re sep s = piece # split_re sep (dropWhile sep rest)"
      unfolding rest_def piece_def by (rule split_re_Cons_rest)
    then have "w = piece \<or> w \<in> set (split_re sep (dropWhile sep rest))"
      using "1.prems"(1) by simp
    then show ?thesis
    proof
      assume "w = piece"
      then show ?thesis using "1.prems"(2) pf by simp
    next
      assume "w \<in> set (split_re sep (dropWhile sep rest))"
      then show ?thesis
        using "1.IH" [OF piece_def rest_def False] "1.prems"(2) by simp
    qed
  qed
qed

lemma last_dropWhile_ne: "dropWhile P xs \<noteq> [] \<Longrightarrow> last (dropWhile P xs) = last xs"
  by (induction xs) (auto split: if_splits)

lemma split_re_tidy_nonempty:
  "tidy s \<Longrightarrow> w \<in> set (split_re is_space s) \<Longrightarrow> w \<noteq> []"
proof (induction is_space s rule: split_re.induct)
  case (1 s)
  define piece where "piece = takeWhile (\<lambda>c. \<not> is_space c) s"
  define rest where "rest = dropWhile (\<lambda>c. \<not> is_space c) s"
  from "1.prems"(1) obtain a as where s: "s = a # as" and a: "\<not> is_space a"
    by (cases s) (auto simp: tidy_def)
  have piece: "piece \<noteq> []" using s a by (simp add: piece_def)
  show ?case
  proof (cases "rest = []")
    case True
    then have "split_re is_space s = [piece]"
      unfolding rest_def piece_def by (rule split_re_Nil_rest)
    then show ?thesis using piece "1.prems"(2) by simp
  next
    case False
    define r2 where "r2 = dropWhile is_space rest"
    have last_rest: "last rest = last s"
      using False unfolding rest_def by (rule last_dropWhile_ne)
    have r2: "r2 \<noteq> []"
    proof
      assume "r2 = []"
      then have "\<forall>c\<in>set rest. is_space c" by (simp add: r2_def)
      then have "is_space (last rest)" using False last_in_set by blast
      then show False using last_rest "1.prems"(1) by (simp add: tidy_def)
    qed
    have "last r2 = last rest"
      using r2 unfolding r2_def by (rule last_dropWhile_ne)
    moreover have "\<not> is_space (hd r2)" using r2 hd_dropWhile unfolding r2_def by blast
    ultimately have t2: "tidy r2"
      using r2 last_rest "1.prems"(1) by (simp add: tidy_def)
    from False have "split_re is_space s = piece # split_re is_space r2"
      unfolding rest_def piece_def r2_def by (rule split_re_Cons_rest)
    then have "w = piece \<or> w \<in> set (split_re is_space r2)"
      using "1.prems"(2) by simp
    moreover have "w \<in> set (split_re is_space r2) \<Longrightarrow> w \<noteq> []"
      using "1.hyps" [OF piece_def rest_def False] t2 unfolding r2_def by blast
    ultimately show ?thesis using piece by blast
  qed
qed

lemma dropWhile_hd_id: "xs \<noteq> [] \<Longrightarrow> \<not> P (hd xs) \<Longrightarrow> dropWhile P xs = xs"
  by (cases xs) auto

lemma trim_tidy: "tidy s \<Longrightarrow> trim s = s"
proof -
  assume t: "tidy s"
  have 1: "dropWhile is_space s = s"
    using t by (intro dropWhile_hd_id) (simp_all add: tidy_def)
  have "rev s \<noteq> []" "hd (rev s) = last s" using t by (simp_all add: hd_rev tidy_def)
  then have 2: "dropWhile is_space (rev s) = rev s"
    using t by (intro dropWhile_hd_id) (simp_all add: tidy_def)
  show ?thesis by (simp add: trim_def 1 2)
qed

lemma trim_hd: "trim s \<noteq> [] \<Longrightarrow> \<not> is_space (hd (trim s))"
proof -
  assume ne: "trim s \<noteq> []"
  define d where "d = dropWhile is_space s"
  define e where "e = dropWhile is_space (rev d)"
  have tr: "trim s = rev e" by (simp add: trim_def e_def d_def)
  have e: "e \<noteq> []" using ne tr by simp
  then have d: "d \<noteq> []" unfolding e_def by auto
  have "hd (trim s) = last e" using e tr by (simp add: hd_rev)
  also have "\<dots> = last (rev d)" using e unfolding e_def by (rule last_dropWhile_ne)
  also have "\<dots> = hd d" using d by (simp add: last_rev)
  finally show ?thesis using hd_dropWhile [of is_space s] d unfolding d_def by simp
qed

lemma sentence_tidy: "trim raw \<noteq> [] \<Longrightarrow> tidy (trim raw @ [46])"
  using trim_hd [of raw] by (simp add: tidy_def)

subsection \<open>The invariant of the chunking loop\<close>

lemma join_sp_snoc: "xs \<noteq> [] \<Longrightarrow> join_sp (xs @ [y]) = join_sp xs @ [32] @ y"
  by (induction xs rule: join_sp.induct) simp_all

lemma strip_from_snoc:
  "strip_from ov p (cs @ [c])
     = strip_from ov p cs @ [drop (length (overlap_seed ov (last (p # cs))) + 1) c]"
  by (induction cs arbitrary: p) simp_all

lemma strip_seeds_snoc:
  "cs \<noteq> [] \<Longrightarrow>
   strip_seeds ov (cs @ [c]) = strip_seeds ov cs @ [drop (length (overlap_seed ov (last cs)) + 1) c]"
  by (cases cs) (simp_all add: strip_from_snoc)

lemma strip_seeds_not_Nil: "cs \<noteq> [] \<Longrightarrow> strip_seeds ov cs \<noteq> []"
  by (cases cs) simp_all

lemma slice_last_not_Nil: "ws \<noteq> [] \<Longrightarrow> slice_last ov ws \<noteq> []"
  by (cases ws) (auto simp: slice_last_def)

lemma set_slice_last: "set (slice_last ov ws) \<subseteq> set ws"
  by (auto simp: slice_last_def dest: in_set_dropD)

lemma hd_join_sp: "ws \<noteq> [] \<Longrightarrow> hd ws \<noteq> [] \<Longrightarrow> hd (join_sp ws) = hd (hd ws)"
  by (induction ws rule: join_sp.induct) simp_all

lemma join_sp_not_Nil: "ws \<noteq> [] \<Longrightarrow> hd ws \<noteq> [] \<Longrightarrow> join_sp ws \<noteq> []"
  by (induction ws rule: join_sp.induct) simp_all

lemma seed_words:
  assumes "tidy c"
  shows "slice_last ov (split_re is_space c) \<noteq> []"
    and "\<forall>v\<in>set (slice_last ov (split_re is_space c)). v \<noteq> [] \<and> (\<forall>x\<in>set v. \<not> is_space x)"
proof -
  show "slice_last ov (split_re is_space c) \<noteq> []"
    by (rule slice_last_not_Nil) (rule split_re_not_Nil)
  show "\<forall>v\<in>set (slice_last ov (split_re is_space c)). v \<noteq> [] \<and> (\<forall>x\<in>set v. \<not> is_space x)"
    using set_slice_last [of ov "split_re is_space c"]
      split_re_tidy_nonempty [OF assms] split_re_sep_free [of _ is_space c]
    by blast
qed

lemma seed_tidy_start:
  assumes "tidy c"
  shows "overlap_seed ov c \<noteq> []" and "\<not> is_space (hd (overlap_seed ov c))"
proof -
  let ?sl = "slice_last ov (split_re is_space c)"
  from seed_words [OF assms, of ov] have ne: "?sl \<noteq> []"
    and all: "\<forall>v\<in>set ?sl. v \<noteq> [] \<and> (\<forall>x\<in>set v. \<not> is_space x)" by blast+
  from ne all have h: "hd ?sl \<noteq> []" "\<forall>x\<in>set (hd ?sl). \<not> is_space x" by auto
  show "overlap_seed ov c \<noteq> []"
    unfolding overlap_seed_def using ne h(1) by (rule join_sp_not_Nil)
  have "hd (overlap_seed ov c) = hd (hd ?sl)"
    unfolding overlap_seed_def using ne h(1) by (rule hd_join_sp)
  then show "\<not> is_space (hd (overlap_seed ov c))" using h by (cases "hd ?sl") auto
qed

lemma seeded_extend_last:
  "seeded ov (chunks @ [cur]) \<Longrightarrow> seeded ov (chunks @ [cur @ x])"
  unfolding seeded_def
proof (intro allI impI)
  fix i
  assume a: "\<forall>i. Suc i < length (chunks @ [cur]) \<longrightarrow>
               prefix (overlap_seed ov ((chunks @ [cur]) ! i) @ [32]) ((chunks @ [cur]) ! Suc i)"
    and i: "Suc i < length (chunks @ [cur @ x])"
  from i have il: "i < length chunks" by simp
  from a i have p: "prefix (overlap_seed ov ((chunks @ [cur]) ! i) @ [32]) ((chunks @ [cur]) ! Suc i)"
    by simp
  have e1: "(chunks @ [cur @ x]) ! i = (chunks @ [cur]) ! i" using il by (simp add: nth_append)
  show "prefix (overlap_seed ov ((chunks @ [cur @ x]) ! i) @ [32]) ((chunks @ [cur @ x]) ! Suc i)"
  proof (cases "Suc i < length chunks")
    case True
    then show ?thesis using p e1 by (simp add: nth_append)
  next
    case False
    with il have "Suc i = length chunks" by simp
    then have "(chunks @ [cur]) ! Suc i = cur" "(chunks @ [cur @ x]) ! Suc i = cur @ x"
      by simp_all
    then show ?thesis using p e1 by (simp add: prefix_prefix)
  qed
qed

lemma seeded_snoc:
  assumes "seeded ov (cs @ [c])" and "prefix (overlap_seed ov c @ [32]) n"
  shows "seeded ov (cs @ [c] @ [n])"
  unfolding seeded_def
proof (intro allI impI)
  fix i
  assume i: "Suc i < length (cs @ [c] @ [n])"
  show "prefix (overlap_seed ov ((cs @ [c] @ [n]) ! i) @ [32]) ((cs @ [c] @ [n]) ! Suc i)"
  proof (cases "Suc i < length (cs @ [c])")
    case True
    then have "(cs @ [c] @ [n]) ! i = (cs @ [c]) ! i" "(cs @ [c] @ [n]) ! Suc i = (cs @ [c]) ! Suc i"
      by (simp_all add: nth_append)
    then show ?thesis using assms(1) True by (simp add: seeded_def)
  next
    case False
    with i have "i = length cs" by simp
    then have "(cs @ [c] @ [n]) ! i = c" "(cs @ [c] @ [n]) ! Suc i = n"
      by (simp_all add: nth_append)
    then show ?thesis using assms(2) by simp
  qed
qed

lemma chunker_inv_step:
  assumes inv: "chunker_inv ov ps st" and raw: "trim raw \<noteq> []"
  shows "chunker_inv ov (ps @ [trim raw @ [46]]) (chunk_step n ov raw st)"
proof -
  obtain chunks cur toks where st: "st = (chunks, cur, toks)" by (cases st) auto
  define s where "s = trim raw @ [46]"
  have ts: "tidy s" unfolding s_def using raw by (rule sentence_tidy)
  show ?thesis
  proof (cases "cur = []")
    case True
    with inv st have e: "chunks = []" "ps = []" by (auto simp: chunker_inv_def tidy_def)
    have "chunk_step n ov raw st = ([], s, toks + estimateTokens s)"
      using True e st by (simp add: chunk_step_def s_def Let_def)
    then show ?thesis using ts e by (simp add: chunker_inv_def s_def seeded_def)
  next
    case False
    with inv st have tc: "tidy cur" and ps: "ps \<noteq> []" and tch: "\<forall>c\<in>set chunks. tidy c"
      and sd: "seeded ov (chunks @ [cur])"
      and js: "join_sp (strip_seeds ov (chunks @ [cur])) = join_sp ps"
      by (auto simp: chunker_inv_def)
    show ?thesis
    proof (cases "toks + estimateTokens s > n")
      case True
      define nx where "nx = overlap_seed ov cur @ [32] @ s"
      have step: "chunk_step n ov raw st = (chunks @ [cur], nx, estimateTokens nx)"
        using True False st trim_tidy [OF tc]
        by (simp add: chunk_step_def s_def [symmetric] nx_def Let_def)
      have tn: "tidy nx"
        using seed_tidy_start [OF tc, of ov] ts by (simp add: nx_def tidy_def)
      have sn: "seeded ov ((chunks @ [cur]) @ [nx])"
        using seeded_snoc [OF sd, of nx] by (simp add: nx_def)
      have "strip_seeds ov ((chunks @ [cur]) @ [nx]) = strip_seeds ov (chunks @ [cur]) @ [s]"
        by (subst strip_seeds_snoc) (simp_all add: nx_def)
      then have "join_sp (strip_seeds ov ((chunks @ [cur]) @ [nx])) = join_sp ps @ [32] @ s"
        using js by (simp add: join_sp_snoc strip_seeds_not_Nil)
      then have "join_sp (strip_seeds ov ((chunks @ [cur]) @ [nx])) = join_sp (ps @ [s])"
        using ps by (simp add: join_sp_snoc)
      then show ?thesis
        using step tn sn tch tc by (simp add: chunker_inv_def s_def)
    next
      case F2: False
      define nx where "nx = cur @ [32] @ s"
      have step: "chunk_step n ov raw st = (chunks, nx, toks + estimateTokens s)"
        using F2 False st by (simp add: chunk_step_def s_def [symmetric] nx_def Let_def)
      have tn: "tidy nx" using tc ts by (simp add: nx_def tidy_def)
      have sn: "seeded ov (chunks @ [nx])"
        unfolding nx_def using sd by (rule seeded_extend_last)
      have sj: "join_sp (strip_seeds ov (chunks @ [nx]))
                  = join_sp (strip_seeds ov (chunks @ [cur])) @ [32] @ s"
      proof (cases "chunks = []")
        case True
        then show ?thesis by (simp add: nx_def)
      next
        case C: False
        define k where "k = length (overlap_seed ov (last chunks)) + 1"
        have "prefix (overlap_seed ov (last chunks) @ [32]) cur"
          using sd C unfolding seeded_def
          by (auto dest!: spec [of _ "length chunks - 1"] simp: nth_append last_conv_nth)
        then have "k \<le> length cur" unfolding k_def by (auto simp: prefix_def)
        then have d: "drop k nx = drop k cur @ [32] @ s" by (simp add: nx_def)
        have "join_sp (strip_seeds ov (chunks @ [nx]))
                = join_sp (strip_seeds ov chunks) @ [32] @ drop k nx"
          using C by (simp add: strip_seeds_snoc join_sp_snoc strip_seeds_not_Nil k_def)
        moreover have "join_sp (strip_seeds ov (chunks @ [cur]))
                = join_sp (strip_seeds ov chunks) @ [32] @ drop k cur"
          using C by (simp add: strip_seeds_snoc join_sp_snoc strip_seeds_not_Nil k_def)
        ultimately show ?thesis using d by simp
      qed
      then have "join_sp (strip_seeds ov (chunks @ [nx])) = join_sp (ps @ [s])"
        using js ps by (simp add: join_sp_snoc)
      then show ?thesis
        using step tn sn tch by (simp add: chunker_inv_def s_def)
    qed
  qed
qed

lemma chunker_inv_fold:
  assumes "chunker_inv ov ps st" and "\<forall>r\<in>set raws. trim r \<noteq> []"
  shows "chunker_inv ov (ps @ map (\<lambda>r. trim r @ [46]) raws) (fold (chunk_step n ov) raws st)"
  using assms
proof (induction raws arbitrary: ps st)
  case Nil
  then show ?case by simp
next
  case (Cons r raws)
  have "chunker_inv ov (ps @ [trim r @ [46]]) (chunk_step n ov r st)"
    using Cons.prems by (intro chunker_inv_step) simp_all
  from Cons.IH [OF this] Cons.prems(2) show ?case by simp
qed

lemma chunker_inv_final:
  "chunker_inv ov (sentences_of text)
     (fold (chunk_step n ov) (raw_sentences text) ([], [], 0))"
proof -
  have "chunker_inv ov [] ([], [], 0)" by (simp add: chunker_inv_def)
  from chunker_inv_fold [OF this, of "raw_sentences text" n]
  show ?thesis by (simp add: sentences_of_def raw_sentences_def)
qed

lemma chunks_before_filter_props:
  fixes doc :: jsstring and n ov :: nat
  defines "cs \<equiv> chunks_before_filter doc n ov"
  shows "join_sp (strip_seeds ov cs) = join_sp (sentences_of doc)"
    and "seeded ov cs" and "\<forall>c\<in>set cs. tidy c"
proof -
  obtain chunks cur toks where
    f: "fold (chunk_step n ov) (raw_sentences doc) ([], [], 0) = (chunks, cur, toks)"
    by (cases "fold (chunk_step n ov) (raw_sentences doc) ([], [], 0)") auto
  have inv: "chunker_inv ov (sentences_of doc) (chunks, cur, toks)"
    using chunker_inv_final [of ov doc n] f by simp
  have all: "join_sp (strip_seeds ov cs) = join_sp (sentences_of doc) \<and> seeded ov cs
             \<and> (\<forall>c\<in>set cs. tidy c)"
  proof (cases "cur = []")
    case True
    with inv have "chunks = []" "sentences_of doc = []"
      by (auto simp: chunker_inv_def tidy_def)
    moreover have "cs = chunks" using True f by (simp add: cs_def chunks_before_filter_def trim_def)
    ultimately show ?thesis by (simp add: seeded_def)
  next
    case False
    with inv have tc: "tidy cur" and rest: "\<forall>c\<in>set chunks. tidy c" "seeded ov (chunks @ [cur])"
      "join_sp (strip_seeds ov (chunks @ [cur])) = join_sp (sentences_of doc)"
      by (auto simp: chunker_inv_def)
    have "cs = chunks @ [cur]"
      using False f trim_tidy [OF tc] by (simp add: cs_def chunks_before_filter_def)
    then show ?thesis using tc rest by simp
  qed
  then show "join_sp (strip_seeds ov cs) = join_sp (sentences_of doc)"
    and "seeded ov cs" and "\<forall>c\<in>set cs. tidy c" by blast+
qed

subsection \<open>Claims about the chunker\<close>

lemma filter_all_kept: "\<forall>c\<in>set cs. P c \<Longrightarrow> filter P cs = cs"
  by (induction cs) simp_all

text \<open>
  Claim C4, amended. \<^const>\<open>splitTextIntoChunks\<close> is a function of its three arguments.
  The chunks it has built before the final length filter, joined by spaces after the
  seeded overlap region of every chunk but the first is removed, are exactly the
  sentences of the input joined by spaces: no sentence is lost and none is repeated.
  The returned chunks have this property whenever every chunk is longer than 50
  characters, that is, whenever the filter discards nothing.
\<close>

theorem chunks_reconstruct_sentences:
  "join_sp (strip_seeds overlap (chunks_before_filter text chunkSize overlap))
     = join_sp (sentences_of text)
   \<and> ((\<forall>c\<in>set (chunks_before_filter text chunkSize overlap). length c > 50) \<longrightarrow>
        join_sp (strip_seeds overlap (splitTextIntoChunks text chunkSize overlap))
          = join_sp (sentences_of text))"
proof -
  have 1: "join_sp (strip_seeds overlap (chunks_before_filter text chunkSize overlap))
             = join_sp (sentences_of text)"
    by (rule chunks_before_filter_props(1))
  have "splitTextIntoChunks text chunkSize overlap = chunks_before_filter text chunkSize overlap"
    if "\<forall>c\<in>set (chunks_before_filter text chunkSize overlap). length c > 50"
    unfolding splitTextIntoChunks_def using that by (rule filter_all_kept)
  then show ?thesis using 1 by simp
qed

theorem chunks_reconstruct_sentences_witness:
  "splitTextIntoChunks two_sentence_text 10 1
     = [js ''alpha1234 bravo1234 charlie12 delta1234 echo12345 foxtrot12 golf12345.'',
        js ''golf12345. hotel1234 india1234 juliet123 kilo12345 lima12345 mike12345 november1.'']
   \<and> strip_seeds 1 (splitTextIntoChunks two_sentence_text 10 1)
     = [js ''alpha1234 bravo1234 charlie12 delta1234 echo12345 foxtrot12 golf12345.'',
        js ''hotel1234 india1234 juliet123 kilo12345 lima12345 mike12345 november1.'']
   \<and> sentences_of two_sentence_text
     = [js ''alpha1234 bravo1234 charlie12 delta1234 echo12345 foxtrot12 golf12345.'',
        js ''hotel1234 india1234 juliet123 kilo12345 lima12345 mike12345 november1.'']
   \<and> list_all (\<lambda>c. length c > 50) (chunks_before_filter two_sentence_text 10 1)
   \<and> join_sp (strip_seeds 1 (splitTextIntoChunks two_sentence_text 10 1))
       = join_sp (sentences_of two_sentence_text)
   \<and> join_sp (sentences_of two_sentence_text) = two_sentence_text"
proof -
  have h: "\<forall>c\<in>set (chunks_before_filter two_sentence_text 10 1). length c > 50"
    by code_simp
  have v: "splitTextIntoChunks two_sentence_text 10 1
     = [js ''alpha1234 bravo1234 charlie12 delta1234 echo12345 foxtrot12 golf12345.'',
        js ''golf12345. hotel1234 india1234 juliet123 kilo12345 lima12345 mike12345 november1.'']"
    by code_simp
  have s: "strip_seeds 1 (splitTextIntoChunks two_sentence_text 10 1)
     = [js ''alpha1234 bravo1234 charlie12 delta1234 echo12345 foxtrot12 golf12345.'',
        js ''hotel1234 india1234 juliet123 kilo12345 lima12345 mike12345 november1.'']"
    by code_simp
  have t: "sentences_of two_sentence_text
     = [js ''alpha1234 bravo1234 charlie12 delta1234 echo12345 foxtrot12 golf12345.'',
        js ''hotel1234 india1234 juliet123 kilo12345 lima12345 mike12345 november1.'']"
    by code_simp
  have j: "join_sp (sentences_of two_sentence_text) = two_sentence_text"
    by code_simp
  have l: "list_all (\<lambda>c. length c > 50) (chunks_before_filter two_sentence_text 10 1)"
    using h by (simp only: list_all_iff)
  have e: "join_sp (strip_seeds 1 (splitTextIntoChunks two_sentence_text 10 1))
             = join_sp (sentences_of two_sentence_text)"
    using h chunks_reconstruct_sentences [of 1 two_sentence_text 10] by blast
  show ?thesis
    by (intro conjI) (rule v, rule s, rule t, rule l, rule e, rule j)
qed

text \<open>
  Claim C4 as stated fails: the only chunk of a short text has at most 50 characters
  and is discarded, so the output, here empty, does not reconstruct its two sentences.
\<close>

theorem chunks_reconstruct_sentences_counterexample:
  "splitTextIntoChunks short_text 400 50 = []
   \<and> sentences_of short_text = [js ''Hello world.'', js ''This is short.'']
   \<and> join_sp (strip_seeds 50 (splitTextIntoChunks short_text 400 50))
       \<noteq> join_sp (sentences_of short_text)"
  by code_simp

lemma seed_prefix_from_seeded:
  assumes t: "tidy p" and pre: "prefix (overlap_seed ov p @ [32]) c"
  shows "seed_prefix_ok ov p c"
proof -
  define ws where "ws = split_re is_space p"
  define sl where "sl = slice_last ov ws"
  from pre obtain r where c: "c = join_sp sl @ [32] @ r"
    by (auto simp: prefix_def overlap_seed_def sl_def ws_def)
  have "split_re is_space c = sl @ split_re is_space (dropWhile is_space r)"
    unfolding c sl_def ws_def
    using seed_words(1) [OF t, of ov] seed_words(2) [OF t, of ov] by (rule split_join)
  moreover have "take (min ov (length ws)) (sl @ xs) = drop (length ws - ov) ws" for xs
  proof (cases "ov = 0")
    case True
    then show ?thesis by simp
  next
    case False
    then have "sl = drop (length ws - ov) ws" by (simp add: sl_def slice_last_def)
    moreover from this have "length sl = min ov (length ws)" by auto
    ultimately show ?thesis by simp
  qed
  ultimately show ?thesis by (simp add: seed_prefix_ok_def Let_def ws_def [symmetric])
qed

text \<open>
  Claim C9, amended. In the sequence of chunks built before the final length filter,
  the words of every chunk after the first begin with the last \<open>overlap\<close> words of the
  chunk before it, or with all its words when it has fewer. That sequence is the
  output whenever every chunk is longer than 50 characters.
\<close>

theorem overlap_before_filter:
  assumes "Suc i < length (chunks_before_filter text chunkSize overlap)"
  shows "seed_prefix_ok overlap (chunks_before_filter text chunkSize overlap ! i)
           (chunks_before_filter text chunkSize overlap ! Suc i)
         \<and> ((\<forall>c\<in>set (chunks_before_filter text chunkSize overlap). length c > 50) \<longrightarrow>
              splitTextIntoChunks text chunkSize overlap
                = chunks_before_filter text chunkSize overlap)"
proof -
  define cs where "cs = chunks_before_filter text chunkSize overlap"
  have sd: "seeded overlap cs" and td: "\<forall>c\<in>set cs. tidy c"
    unfolding cs_def by (rule chunks_before_filter_props(2), rule chunks_before_filter_props(3))
  have i: "Suc i < length cs" using assms by (simp add: cs_def)
  then have "tidy (cs ! i)" using td by simp
  moreover have "prefix (overlap_seed overlap (cs ! i) @ [32]) (cs ! Suc i)"
    using sd i by (simp add: seeded_def)
  ultimately have "seed_prefix_ok overlap (cs ! i) (cs ! Suc i)"
    by (rule seed_prefix_from_seeded)
  moreover have "splitTextIntoChunks text chunkSize overlap = cs"
    if "\<forall>c\<in>set cs. length c > 50"
    unfolding splitTextIntoChunks_def cs_def [symmetric] using that by (rule filter_all_kept)
  ultimately show ?thesis unfolding cs_def by blast
qed

theorem overlap_before_filter_witness:
  "Suc 0 < length (chunks_before_filter two_sentence_text 10 1)
   \<and> list_all (\<lambda>c. length c > 50) (chunks_before_filter two_sentence_text 10 1)
   \<and> seed_prefix_ok 1 (chunks_before_filter two_sentence_text 10 1 ! 0)
        (chunks_before_filter two_sentence_text 10 1 ! Suc 0)
   \<and> splitTextIntoChunks two_sentence_text 10 1 = chunks_before_filter two_sentence_text 10 1"
proof -
  have h: "Suc 0 < length (chunks_before_filter two_sentence_text 10 1)"
    by code_simp
  have a: "\<forall>c\<in>set (chunks_before_filter two_sentence_text 10 1). length c > 50"
    by code_simp
  show ?thesis
    using h a overlap_before_filter [OF h] by (simp add: list_all_iff)
qed

text \<open>
  Claim C9 as stated fails on the output: with chunk size 10 and overlap 1 the middle
  chunk \<^verbatim>\<open>golf12345. Ok.\<close> is discarded by the length filter, and the second chunk
  returned begins with \<^verbatim>\<open>Ok.\<close>, which is not the last word of the first.
\<close>

theorem overlap_before_filter_counterexample:
  "length (splitTextIntoChunks three_sentence_text 10 1) = 2
   \<and> \<not> seed_prefix_ok 1 (splitTextIntoChunks three_sentence_text 10 1 ! 0)
          (splitTextIntoChunks three_sentence_text 10 1 ! 1)"
  by code_simp

section \<open>The linear-scan store: search\<close>

subsection \<open>Scoring\<close>

lemma cosineSimilarity_isl: "isl (cosineSimilarity a b) \<longleftrightarrow> length a \<noteq> length b"
  by (simp add: cosineSimilarity_def Let_def split: prod.splits)

lemma cosineSimilarity_ordered:
  "cosineSimilarity a b = Inr s \<Longrightarrow> s = NaN \<or> ordered_value s"
  using ddiv_ordered
  by (auto simp: cosineSimilarity_def Let_def split: prod.splits if_splits)

lemma score_chunks_total:
  "\<forall>c\<in>set chunks. length (embedding c) = length q \<Longrightarrow> \<exists>r. score_chunks q chunks = Inr r"
proof (induction chunks)
  case Nil
  then show ?case by simp
next
  case (Cons c chunks)
  then obtain r where r: "score_chunks q chunks = Inr r" by auto
  have "\<not> isl (cosineSimilarity q (embedding c))"
    using Cons.prems by (simp add: cosineSimilarity_isl)
  then obtain s where "cosineSimilarity q (embedding c) = Inr s"
    by (cases "cosineSimilarity q (embedding c)") auto
  then show ?case using r by simp
qed

lemma stored_part_with_similarity [simp]: "stored_part (with_similarity c s) = c"
  by (simp add: stored_part_def with_similarity_def)

lemma similarity_with_similarity [simp]: "similarity (with_similarity c s) = s"
  by (simp add: with_similarity_def)

lemma score_chunks_Inr:
  "score_chunks q chunks = Inr scored \<Longrightarrow>
   list_all2 (\<lambda>c r. stored_part r = c \<and> cosineSimilarity q (embedding c) = Inr (similarity r))
     chunks scored"
proof (induction chunks arbitrary: scored)
  case Nil
  then show ?case by simp
next
  case (Cons c chunks)
  then show ?case by (auto split: sum.splits)
qed

lemma scored_filter_value:
  "list_all2 (\<lambda>c r. stored_part r = c \<and> cosineSimilarity q (embedding c) = Inr (similarity r))
     chunks scored \<Longrightarrow>
   map stored_part (filter (\<lambda>r. similarity r = s) scored)
     = filter (\<lambda>c. cosineSimilarity q (embedding c) = Inr s) chunks"
  by (induction chunks scored rule: list_all2_induct) auto

lemma scored_filter_length:
  "list_all2 (\<lambda>c r. stored_part r = c \<and> cosineSimilarity q (embedding c) = Inr (similarity r))
     chunks scored \<Longrightarrow>
   length (filter (\<lambda>r. dge (similarity r) thr) scored)
     = length (filter (\<lambda>c. case cosineSimilarity q (embedding c) of
                             Inl e \<Rightarrow> False | Inr s \<Rightarrow> dge s thr) chunks)"
  by (induction chunks scored rule: list_all2_induct) auto

lemma scored_embedding:
  "list_all2 (\<lambda>c r. stored_part r = c \<and> cosineSimilarity q (embedding c) = Inr (similarity r))
     chunks scored \<Longrightarrow> r \<in> set scored \<Longrightarrow>
   stored_part r \<in> set chunks \<and> cosineSimilarity q (embedding r) = Inr (similarity r)"
proof (induction chunks scored rule: list_all2_induct)
  case Nil
  then show ?case by simp
next
  case (Cons c cs x xs)
  have "embedding (stored_part x) = embedding x" by (simp add: stored_part_def)
  then show ?case using Cons by auto
qed

subsection \<open>Sorting\<close>

lemma set_insert_by [simp]: "set (insert_by compare a xs) = insert a (set xs)"
  by (induction xs) auto

lemma length_insert_by [simp]: "length (insert_by compare a xs) = Suc (length xs)"
  by (induction xs) auto

lemma set_js_sort [simp]: "set (js_sort compare xs) = set xs"
  by (induction xs) (simp_all add: js_sort_def)

lemma length_js_sort [simp]: "length (js_sort compare xs) = length xs"
  by (induction xs) (simp_all add: js_sort_def)

lemma js_sort_Cons: "js_sort compare (x # xs) = insert_by compare x (js_sort compare xs)"
  by (simp add: js_sort_def)

lemma insert_by_sorted:
  assumes "ordered_value (similarity a)" and "\<forall>x\<in>set xs. ordered_value (similarity x)"
    and "sorted_wrt at_least xs"
  shows "sorted_wrt at_least (insert_by (\<lambda>a b. dsub (similarity b) (similarity a)) a xs)"
  using assms(2,3)
proof (induction xs)
  case Nil
  then show ?case by simp
next
  case (Cons b bs)
  have ob: "ordered_value (similarity b)" using Cons.prems by simp
  show ?case
  proof (cases "is_positive (dsub (similarity b) (similarity a))")
    case True
    then have "at_least b a"
      using dsub_positive [OF assms(1) ob] by (simp add: at_least_def)
    then show ?thesis using True Cons by auto
  next
    case False
    then have ab: "at_least a b"
      using dsub_positive [OF assms(1) ob] dge_total [OF assms(1) ob] by (auto simp: at_least_def)
    have "at_least a y" if "y \<in> set bs" for y
    proof -
      have "at_least b y" using Cons.prems(2) that by simp
      then show ?thesis using ab dge_trans unfolding at_least_def by blast
    qed
    then show ?thesis using False ab Cons.prems by simp
  qed
qed

lemma js_sort_sorted:
  "\<forall>x\<in>set xs. ordered_value (similarity x) \<Longrightarrow>
   sorted_wrt at_least (js_sort (\<lambda>a b. dsub (similarity b) (similarity a)) xs)"
proof (induction xs)
  case Nil
  then show ?case by (simp add: js_sort_def)
next
  case (Cons x xs)
  then show ?case by (simp add: js_sort_Cons insert_by_sorted)
qed

lemma insert_by_stable:
  "filter (\<lambda>r. similarity r = s) (insert_by (\<lambda>a b. dsub (similarity b) (similarity a)) a xs)
     = filter (\<lambda>r. similarity r = s) (a # xs)"
proof (induction xs)
  case Nil
  then show ?case by simp
next
  case (Cons b bs)
  show ?case
  proof (cases "is_positive (dsub (similarity b) (similarity a))")
    case True
    then have "similarity b \<noteq> similarity a" using dsub_same [of "similarity a"] by auto
    then show ?thesis using True Cons by auto
  next
    case False
    then show ?thesis by simp
  qed
qed

lemma js_sort_stable:
  "filter (\<lambda>r. similarity r = s) (js_sort (\<lambda>a b. dsub (similarity b) (similarity a)) xs)
     = filter (\<lambda>r. similarity r = s) xs"
proof (induction xs)
  case Nil
  then show ?case by (simp add: js_sort_def)
next
  case (Cons x xs)
  then show ?case by (simp add: js_sort_Cons insert_by_stable)
qed

lemma prefix_filter_take: "prefix (filter P (take n xs)) (filter P xs)"
proof -
  have "filter P xs = filter P (take n xs) @ filter P (drop n xs)"
    by (metis append_take_drop_id filter_append)
  then show ?thesis by (simp add: prefix_def)
qed

lemma sorted_wrt_take: "sorted_wrt R xs \<Longrightarrow> sorted_wrt R (take n xs)"
  by (metis append_take_drop_id sorted_wrt_append)

lemma search_results:
  assumes "searchBookChunks file q thr cnt = Inr results"
  shows "\<exists>scored.
           list_all2 (\<lambda>c r. stored_part r = c
                            \<and> cosineSimilarity q (embedding c) = Inr (similarity r))
             (loadBookChunks file) scored
           \<and> results = take cnt (js_sort (\<lambda>a b. dsub (similarity b) (similarity a))
                                   (filter (\<lambda>r. dge (similarity r) thr) scored))"
proof (cases "loadBookChunks file = []")
  case True
  then have "results = []" using assms by (simp add: searchBookChunks_def)
  then show ?thesis using True by (simp add: js_sort_def)
next
  case False
  then obtain scored where sc: "score_chunks q (loadBookChunks file) = Inr scored"
    and res: "results = take cnt (js_sort (\<lambda>a b. dsub (similarity b) (similarity a))
                                    (filter (\<lambda>r. dge (similarity r) thr) scored))"
    using assms by (auto simp: searchBookChunks_def split: sum.splits)
  then show ?thesis using score_chunks_Inr [OF sc] by blast
qed

subsection \<open>Worked similarities\<close>

lemma rnd_1: "rnd 1 = Fin 1"
  using rnd_scaled [of 1 52 "2 ^ 52"] by simp

lemma rnd_2: "rnd 2 = Fin 2"
  using rnd_scaled [of 2 51 "2 ^ 52"] by simp

lemma rnd_3: "rnd 3 = Fin 3"
  using rnd_scaled [of 3 51 "3 * 2 ^ 51"] by simp

lemma rnd_9: "rnd 9 = Fin 9"
  using rnd_scaled [of 9 49 "9 * 2 ^ 49"] by simp

lemma rnd_18: "rnd 18 = Fin 18"
  using rnd_scaled [of 18 48 "18 * 2 ^ 48"] by simp

lemma sqrt_2: "rnd (sqrt 2) = Fin (6369051672525773 / 2 ^ 52)"
  using rnd_sqrt [of 6369051672525773 2 52] by (simp add: power2_eq_square)

lemma sqrt_3: "rnd (sqrt 3) = Fin (7800463371553962 / 2 ^ 52)"
  using rnd_sqrt [of 7800463371553962 3 52] by (simp add: power2_eq_square)

lemma sqrt_18: "rnd (sqrt 18) = Fin (4776788754394329 / 2 ^ 50)"
  using rnd_sqrt [of 4776788754394329 18 50] by (simp add: power2_eq_square)

lemma dot_and_norms_2:
  "dot_and_norms [a1, a2] [b1, b2] =
     (dadd (dadd (Fin 0) (dmul a1 b1)) (dmul a2 b2),
      dadd (dadd (Fin 0) (dmul a1 a1)) (dmul a2 a2),
      dadd (dadd (Fin 0) (dmul b1 b1)) (dmul b2 b2))"
  by (simp add: dot_and_norms_def)

lemma dot_and_norms_3:
  "dot_and_norms [a1, a2, a3] [b1, b2, b3] =
     (dadd (dadd (dadd (Fin 0) (dmul a1 b1)) (dmul a2 b2)) (dmul a3 b3),
      dadd (dadd (dadd (Fin 0) (dmul a1 a1)) (dmul a2 a2)) (dmul a3 a3),
      dadd (dadd (dadd (Fin 0) (dmul b1 b1)) (dmul b2 b2)) (dmul b3 b3))"
  by (simp add: dot_and_norms_def)

lemma cosineSimilarity_eval:
  assumes "length a = length b" and "dot_and_norms a b = (d, na, nb)"
    and "dsqrt na = Fin x" and "dsqrt nb = Fin y" and "x \<noteq> 0" and "y \<noteq> 0"
    and "ddiv d (dmul (Fin x) (Fin y)) = r"
  shows "cosineSimilarity a b = Inr r"
  using assms by (simp add: cosineSimilarity_def Let_def)

text \<open>\<^verbatim>\<open>cosineSimilarity([1, 0], [1, 1])\<close> is \<^verbatim>\<open>1 / Math.sqrt(2)\<close>, the double
  \<^verbatim>\<open>0.7071067811865475\<close>.\<close>

lemma cos_diagonal: "cosineSimilarity [Fin 1, Fin 0] [Fin 1, Fin 1] = Inr sim_diagonal"
proof -
  have d: "dot_and_norms [Fin 1, Fin 0] [Fin 1, Fin 1] = (Fin 1, Fin 1, Fin 2)"
    using rnd_1 rnd_2 by (simp add: dot_and_norms_2)
  have m: "dmul (Fin 1) (Fin (6369051672525773 / 2 ^ 52)) = Fin (6369051672525773 / 2 ^ 52)"
    using rnd_scaled [of "6369051672525773 / 2 ^ 52" 52 6369051672525773] by simp
  have q: "ddiv (Fin 1) (Fin (6369051672525773 / 2 ^ 52)) = Fin (6369051672525772 / 2 ^ 53)"
    using rnd_scaled [of "1 / (6369051672525773 / 2 ^ 52)" 53 6369051672525772] by simp
  have s: "dsqrt (Fin 1) = Fin 1" "dsqrt (Fin 2) = Fin (6369051672525773 / 2 ^ 52)"
    using rnd_1 sqrt_2 by simp_all
  show ?thesis
    unfolding sim_diagonal_def
    proof (rule cosineSimilarity_eval [OF _ d s])
    show "ddiv (Fin 1) (dmul (Fin 1) (Fin (6369051672525773 / 2 ^ 52))) = Fin (6369051672525772 / 2 ^ 53)"
      by (simp only: m q)
  qed simp_all
qed

text \<open>\<^verbatim>\<open>cosineSimilarity([1, 0], [3, 3])\<close> is \<^verbatim>\<open>3 / Math.sqrt(18)\<close>, the double
  \<^verbatim>\<open>0.7071067811865476\<close>.\<close>

lemma cos_long_diagonal:
  "cosineSimilarity [Fin 1, Fin 0] [Fin 3, Fin 3] = Inr sim_long_diagonal"
proof -
  have d: "dot_and_norms [Fin 1, Fin 0] [Fin 3, Fin 3] = (Fin 3, Fin 1, Fin 18)"
    using rnd_1 rnd_3 rnd_9 rnd_18 by (simp add: dot_and_norms_2)
  have m: "dmul (Fin 1) (Fin (4776788754394329 / 2 ^ 50)) = Fin (4776788754394329 / 2 ^ 50)"
    using rnd_scaled [of "4776788754394329 / 2 ^ 50" 50 4776788754394329] by simp
  have q: "ddiv (Fin 3) (Fin (4776788754394329 / 2 ^ 50)) = Fin (6369051672525773 / 2 ^ 53)"
    using rnd_scaled [of "3 / (4776788754394329 / 2 ^ 50)" 53 6369051672525773] by simp
  have s: "dsqrt (Fin 1) = Fin 1" "dsqrt (Fin 18) = Fin (4776788754394329 / 2 ^ 50)"
    using rnd_1 sqrt_18 by simp_all
  show ?thesis
    unfolding sim_long_diagonal_def
    proof (rule cosineSimilarity_eval [OF _ d s])
    show "ddiv (Fin 3) (dmul (Fin 1) (Fin (4776788754394329 / 2 ^ 50))) = Fin (6369051672525773 / 2 ^ 53)"
      by (simp only: m q)
  qed simp_all
qed

lemma cos_north: "cosineSimilarity [Fin 1, Fin 0] [Fin 0, Fin 1] = Inr (Fin 0)"
proof -
  have d: "dot_and_norms [Fin 1, Fin 0] [Fin 0, Fin 1] = (Fin 0, Fin 1, Fin 1)"
    using rnd_1 by (simp add: dot_and_norms_2)
  have s: "dsqrt (Fin 1) = Fin 1" using rnd_1 by simp
  show ?thesis
    using rnd_1 by (intro cosineSimilarity_eval [OF _ d s s]) simp_all
qed

text \<open>\<^verbatim>\<open>cosineSimilarity([1, 1], [1, 1])\<close> is \<^verbatim>\<open>0.9999999999999998\<close>:
  \<^verbatim>\<open>Math.sqrt(2) * Math.sqrt(2)\<close> is \<^verbatim>\<open>2.0000000000000004\<close>.\<close>

lemma cos_self_2:
  "cosineSimilarity [Fin 1, Fin 1] [Fin 1, Fin 1] = Inr (Fin (9007199254740990 / 2 ^ 53))"
proof -
  have d: "dot_and_norms [Fin 1, Fin 1] [Fin 1, Fin 1] = (Fin 2, Fin 2, Fin 2)"
    using rnd_1 rnd_2 by (simp add: dot_and_norms_2)
  have m: "dmul (Fin (6369051672525773 / 2 ^ 52)) (Fin (6369051672525773 / 2 ^ 52))
             = Fin (4503599627370497 / 2 ^ 51)"
    using rnd_scaled [of "6369051672525773 / 2 ^ 52 * (6369051672525773 / 2 ^ 52)" 51
                         4503599627370497] by simp
  have q: "ddiv (Fin 2) (Fin (4503599627370497 / 2 ^ 51)) = Fin (9007199254740990 / 2 ^ 53)"
    using rnd_scaled [of "2 / (4503599627370497 / 2 ^ 51)" 53 9007199254740990] by simp
  have s: "dsqrt (Fin 2) = Fin (6369051672525773 / 2 ^ 52)"
    using sqrt_2 by simp
  show ?thesis
  proof (rule cosineSimilarity_eval [OF _ d s s])
    show "ddiv (Fin 2) (dmul (Fin (6369051672525773 / 2 ^ 52)) (Fin (6369051672525773 / 2 ^ 52))) = Fin (9007199254740990 / 2 ^ 53)"
      by (simp only: m q)
  qed simp_all
qed

text \<open>\<^verbatim>\<open>cosineSimilarity([1, 1, 1], [1, 1, 1])\<close> is \<^verbatim>\<open>1.0000000000000002\<close>:
  \<^verbatim>\<open>Math.sqrt(3) * Math.sqrt(3)\<close> is \<^verbatim>\<open>2.9999999999999996\<close>.\<close>

lemma cos_self_3:
  "cosineSimilarity [Fin 1, Fin 1, Fin 1] [Fin 1, Fin 1, Fin 1]
     = Inr (Fin (4503599627370497 / 2 ^ 52))"
proof -
  have d: "dot_and_norms [Fin 1, Fin 1, Fin 1] [Fin 1, Fin 1, Fin 1] = (Fin 3, Fin 3, Fin 3)"
    using rnd_1 rnd_2 rnd_3 by (simp add: dot_and_norms_3)
  have m: "dmul (Fin (7800463371553962 / 2 ^ 52)) (Fin (7800463371553962 / 2 ^ 52))
             = Fin (6755399441055743 / 2 ^ 51)"
    using rnd_scaled [of "7800463371553962 / 2 ^ 52 * (7800463371553962 / 2 ^ 52)" 51
                         6755399441055743] by simp
  have q: "ddiv (Fin 3) (Fin (6755399441055743 / 2 ^ 51)) = Fin (4503599627370497 / 2 ^ 52)"
    using rnd_scaled [of "3 / (6755399441055743 / 2 ^ 51)" 52 4503599627370497] by simp
  have s: "dsqrt (Fin 3) = Fin (7800463371553962 / 2 ^ 52)"
    using sqrt_3 by simp
  show ?thesis
  proof (rule cosineSimilarity_eval [OF _ d s s])
    show "ddiv (Fin 3) (dmul (Fin (7800463371553962 / 2 ^ 52)) (Fin (7800463371553962 / 2 ^ 52))) = Fin (4503599627370497 / 2 ^ 52)"
      by (simp only: m q)
  qed simp_all
qed

subsection \<open>Claims about the search\<close>

text \<open>
  The search of the example corpus for the query \<open>[1, 0]\<close> at threshold 0.5: the later
  chunk of similarity \<^verbatim>\<open>0.7071067811865476\<close> comes first, the two chunks of
  similarity \<^verbatim>\<open>0.7071067811865475\<close> follow in ingestion order, and the chunk of
  similarity 0 is dropped.
\<close>

lemma compass_scored:
  "score_chunks [Fin 1, Fin 0]
     [chunk_diagonal, chunk_long_diagonal, chunk_north, chunk_diagonal_again]
   = Inr [with_similarity chunk_diagonal sim_diagonal,
          with_similarity chunk_long_diagonal sim_long_diagonal,
          with_similarity chunk_north (Fin 0),
          with_similarity chunk_diagonal_again sim_diagonal]"
  using cos_diagonal cos_long_diagonal cos_north
  by (simp add: chunk_diagonal_def chunk_long_diagonal_def chunk_north_def
                chunk_diagonal_again_def)

lemma compass_compare:
  "dsub sim_long_diagonal sim_diagonal = Fin (1 / 2 ^ 53)"
  "dsub sim_diagonal sim_long_diagonal = Fin (- (1 / 2 ^ 53))"
  "dsub sim_diagonal sim_diagonal = Fin 0"
proof -
  have up: "rnd (1 / 2 ^ 53) = Fin (1 / 2 ^ 53)"
    using rnd_scaled [of "1 / 2 ^ 53" 105 "2 ^ 52"] by simp
  have down: "rnd (- (1 / 2 ^ 53)) = Fin (- (1 / 2 ^ 53))"
    using rnd_scaled [of "- (1 / 2 ^ 53)" 105 "- (2 ^ 52)"] by simp
  show "dsub sim_long_diagonal sim_diagonal = Fin (1 / 2 ^ 53)"
    using up by (simp add: dsub_def sim_diagonal_def sim_long_diagonal_def)
  show "dsub sim_diagonal sim_long_diagonal = Fin (- (1 / 2 ^ 53))"
    using down by (simp add: dsub_def sim_diagonal_def sim_long_diagonal_def)
  show "dsub sim_diagonal sim_diagonal = Fin 0"
    by (simp add: dsub_def sim_diagonal_def)
qed

lemma compass_search:
  "searchBookChunks compass_file [Fin 1, Fin 0] (Fin (1 / 2)) 5 =
     Inr [\<lparr>chunk_id = JStr (js ''Alpha_chunk_1''), content = js ''long diagonal'',
            embedding = [Fin 3, Fin 3], metadata = None,
            similarity = Fin (6369051672525773 / 2 ^ 53)\<rparr>,
          \<lparr>chunk_id = JStr (js ''Alpha_chunk_0''), content = js ''diagonal'',
            embedding = [Fin 1, Fin 1], metadata = None,
            similarity = Fin (6369051672525772 / 2 ^ 53)\<rparr>,
          \<lparr>chunk_id = JStr (js ''Alpha_chunk_3''), content = js ''diagonal again'',
            embedding = [Fin 1, Fin 1], metadata = None,
            similarity = Fin (6369051672525772 / 2 ^ 53)\<rparr>]"
proof -
  have f: "dge sim_diagonal (Fin (1 / 2))" "dge sim_long_diagonal (Fin (1 / 2))"
    "\<not> dge (Fin 0) (Fin (1 / 2))"
    by (simp_all add: sim_diagonal_def sim_long_diagonal_def)
  have "searchBookChunks compass_file [Fin 1, Fin 0] (Fin (1 / 2)) 5 =
          Inr [with_similarity chunk_long_diagonal sim_long_diagonal,
               with_similarity chunk_diagonal sim_diagonal,
               with_similarity chunk_diagonal_again sim_diagonal]"
    by (simp add: searchBookChunks_def compass_file_def compass_scored f js_sort_def
                  compass_compare del: score_chunks.simps)
  then show ?thesis
    by (simp add: with_similarity_def chunk_diagonal_def chunk_long_diagonal_def
                  chunk_diagonal_again_def sim_diagonal_def sim_long_diagonal_def)
qed

text \<open>
  The same search with the threshold \<^verbatim>\<open>0.7071067811865475\<close> and the limit 2: a chunk
  whose similarity equals the threshold is kept, and the third match is cut off.
\<close>

lemma compass_search_boundary:
  "searchBookChunks compass_file [Fin 1, Fin 0] (Fin (6369051672525772 / 2 ^ 53)) 2 =
     Inr [\<lparr>chunk_id = JStr (js ''Alpha_chunk_1''), content = js ''long diagonal'',
            embedding = [Fin 3, Fin 3], metadata = None,
            similarity = Fin (6369051672525773 / 2 ^ 53)\<rparr>,
          \<lparr>chunk_id = JStr (js ''Alpha_chunk_0''), content = js ''diagonal'',
            embedding = [Fin 1, Fin 1], metadata = None,
            similarity = Fin (6369051672525772 / 2 ^ 53)\<rparr>]"
proof -
  have f: "dge sim_diagonal sim_diagonal" "dge sim_long_diagonal sim_diagonal"
    "\<not> dge (Fin 0) sim_diagonal"
    by (simp_all add: sim_diagonal_def sim_long_diagonal_def)
  have "searchBookChunks compass_file [Fin 1, Fin 0] sim_diagonal 2 =
          Inr [with_similarity chunk_long_diagonal sim_long_diagonal,
               with_similarity chunk_diagonal sim_diagonal]"
    by (simp add: searchBookChunks_def compass_file_def compass_scored f js_sort_def
                  compass_compare del: score_chunks.simps)
  then show ?thesis
    by (simp add: with_similarity_def chunk_diagonal_def chunk_long_diagonal_def
                  sim_diagonal_def sim_long_diagonal_def)
qed

text \<open>
  Claim C2. Whenever \<^const>\<open>searchBookChunks\<close> returns: every result is a stored chunk
  (its identifier, content, embedding and metadata) together with the cosine
  similarity of its embedding to the query, and that similarity is at least the
  threshold; the results are in descending order of similarity; for every similarity
  value the results with that value are an initial segment of the stored chunks with
  that value in ingestion order, so ties keep ingestion order, the earlier chunk
  first; and the number of results is the limit, or the number of stored chunks that
  reach the threshold when that is less. The result is a function of the corpus, the
  query, the threshold and the limit. Similarities are compared as the doubles the
  code computes.
\<close>

theorem search_contract:
  assumes "searchBookChunks file q thr cnt = Inr results"
  shows "list_all (\<lambda>r. stored_part r \<in> set (loadBookChunks file)
                       \<and> cosineSimilarity q (embedding r) = Inr (similarity r)
                       \<and> dge (similarity r) thr) results
         \<and> sorted_wrt at_least results
         \<and> (\<forall>s. prefix (map stored_part (filter (\<lambda>r. similarity r = s) results))
                        (filter (\<lambda>c. cosineSimilarity q (embedding c) = Inr s)
                           (loadBookChunks file)))
         \<and> length results \<le> cnt
         \<and> length results
             = min cnt (length (filter (\<lambda>c. case cosineSimilarity q (embedding c) of
                                               Inl e \<Rightarrow> False | Inr s \<Rightarrow> dge s thr)
                                  (loadBookChunks file)))"
proof -
  from search_results [OF assms] obtain scored where
    sc: "list_all2 (\<lambda>c r. stored_part r = c
                          \<and> cosineSimilarity q (embedding c) = Inr (similarity r))
           (loadBookChunks file) scored"
    and res: "results = take cnt (js_sort (\<lambda>a b. dsub (similarity b) (similarity a))
                                    (filter (\<lambda>r. dge (similarity r) thr) scored))"
    by blast
  define kept where "kept = filter (\<lambda>r. dge (similarity r) thr) scored"
  define sorted where "sorted = js_sort (\<lambda>a b. dsub (similarity b) (similarity a)) kept"
  have r: "results = take cnt sorted" using res by (simp add: kept_def sorted_def)
  have sub: "set results \<subseteq> set kept"
    unfolding r sorted_def using set_take_subset [of cnt sorted] by (simp add: sorted_def)
  have each: "stored_part x \<in> set (loadBookChunks file)
              \<and> cosineSimilarity q (embedding x) = Inr (similarity x)
              \<and> dge (similarity x) thr" if "x \<in> set results" for x
  proof -
    have "x \<in> set scored" "dge (similarity x) thr" using that sub by (auto simp: kept_def)
    then show ?thesis using scored_embedding [OF sc] by blast
  qed
  have ord: "ordered_value (similarity x)" if "x \<in> set kept" for x
  proof -
    have x: "x \<in> set scored" "dge (similarity x) thr" using that by (auto simp: kept_def)
    then have "cosineSimilarity q (embedding x) = Inr (similarity x)"
      using scored_embedding [OF sc] by blast
    then show ?thesis using cosineSimilarity_ordered dge_ordered [OF x(2)] by blast
  qed
  have srt: "sorted_wrt at_least results"
    unfolding r sorted_def using ord by (intro sorted_wrt_take js_sort_sorted) blast
  have ties: "prefix (map stored_part (filter (\<lambda>r. similarity r = s) results))
                     (filter (\<lambda>c. cosineSimilarity q (embedding c) = Inr s)
                        (loadBookChunks file))" for s
  proof -
    have "prefix (filter (\<lambda>r. similarity r = s) results) (filter (\<lambda>r. similarity r = s) sorted)"
      unfolding r by (rule prefix_filter_take)
    also have "filter (\<lambda>r. similarity r = s) sorted = filter (\<lambda>r. similarity r = s) kept"
      unfolding sorted_def by (rule js_sort_stable)
    also have "prefix (filter (\<lambda>r. similarity r = s) kept) (filter (\<lambda>r. similarity r = s) scored)"
    proof (cases "dge s thr")
      case True
      then have "filter (\<lambda>r. similarity r = s) kept = filter (\<lambda>r. similarity r = s) scored"
        unfolding kept_def filter_filter by (intro filter_cong) auto
      then show ?thesis by simp
    next
      case False
      then have "filter (\<lambda>r. similarity r = s) kept = []"
        unfolding kept_def filter_filter by (auto simp: filter_empty_conv)
      then show ?thesis by simp
    qed
    finally have "prefix (map stored_part (filter (\<lambda>r. similarity r = s) results))
                         (map stored_part (filter (\<lambda>r. similarity r = s) scored))"
      by (rule map_mono_prefix)
    then show ?thesis by (simp only: scored_filter_value [OF sc])
  qed
  have len: "length results
               = min cnt (length (filter (\<lambda>c. case cosineSimilarity q (embedding c) of
                                                 Inl e \<Rightarrow> False | Inr s \<Rightarrow> dge s thr)
                                    (loadBookChunks file)))"
    unfolding r sorted_def kept_def
    by (simp add: scored_filter_length [OF sc] min.commute)
  have "length results \<le> cnt" unfolding r by simp
  then show ?thesis using each srt ties len by (simp add: list_all_iff)
qed

theorem search_contract_witness:
  "searchBookChunks compass_file [Fin 1, Fin 0] (Fin (1 / 2)) 5 =
     Inr [\<lparr>chunk_id = JStr (js ''Alpha_chunk_1''), content = js ''long diagonal'',
            embedding = [Fin 3, Fin 3], metadata = None,
            similarity = Fin (6369051672525773 / 2 ^ 53)\<rparr>,
          \<lparr>chunk_id = JStr (js ''Alpha_chunk_0''), content = js ''diagonal'',
            embedding = [Fin 1, Fin 1], metadata = None,
            similarity = Fin (6369051672525772 / 2 ^ 53)\<rparr>,
          \<lparr>chunk_id = JStr (js ''Alpha_chunk_3''), content = js ''diagonal again'',
            embedding = [Fin 1, Fin 1], metadata = None,
            similarity = Fin (6369051672525772 / 2 ^ 53)\<rparr>]
   \<and> list_all (\<lambda>r. stored_part r \<in> set (loadBookChunks compass_file)
                    \<and> cosineSimilarity [Fin 1, Fin 0] (embedding r) = Inr (similarity r)
                    \<and> dge (similarity r) (Fin (1 / 2)))
        [\<lparr>chunk_id = JStr (js ''Alpha_chunk_1''), content = js ''long diagonal'',
           embedding = [Fin 3, Fin 3], metadata = None,
           similarity = Fin (6369051672525773 / 2 ^ 53)\<rparr>,
         \<lparr>chunk_id = JStr (js ''Alpha_chunk_0''), content = js ''diagonal'',
           embedding = [Fin 1, Fin 1], metadata = None,
           similarity = Fin (6369051672525772 / 2 ^ 53)\<rparr>,
         \<lparr>chunk_id = JStr (js ''Alpha_chunk_3''), content = js ''diagonal again'',
           embedding = [Fin 1, Fin 1], metadata = None,
           similarity = Fin (6369051672525772 / 2 ^ 53)\<rparr>]
   \<and> sorted_wrt at_least
        [\<lparr>chunk_id = JStr (js ''Alpha_chunk_1''), content = js ''long diagonal'',
           embedding = [Fin 3, Fin 3], metadata = None,
           similarity = Fin (6369051672525773 / 2 ^ 53)\<rparr>,
         \<lparr>chunk_id = JStr (js ''Alpha_chunk_0''), content = js ''diagonal'',
           embedding = [Fin 1, Fin 1], metadata = None,
           similarity = Fin (6369051672525772 / 2 ^ 53)\<rparr>,
         \<lparr>chunk_id = JStr (js ''Alpha_chunk_3''), content = js ''diagonal again'',
           embedding = [Fin 1, Fin 1], metadata = None,
           similarity = Fin (6369051672525772 / 2 ^ 53)\<rparr>]
   \<and> prefix [chunk_diagonal, chunk_diagonal_again]
        (filter (\<lambda>c. cosineSimilarity [Fin 1, Fin 0] (embedding c)
                       = Inr (Fin (6369051672525772 / 2 ^ 53)))
           (loadBookChunks compass_file))
   \<and> searchBookChunks compass_file [Fin 1, Fin 0] (Fin (6369051672525772 / 2 ^ 53)) 2 =
       Inr [\<lparr>chunk_id = JStr (js ''Alpha_chunk_1''), content = js ''long diagonal'',
              embedding = [Fin 3, Fin 3], metadata = None,
              similarity = Fin (6369051672525773 / 2 ^ 53)\<rparr>,
            \<lparr>chunk_id = JStr (js ''Alpha_chunk_0''), content = js ''diagonal'',
              embedding = [Fin 1, Fin 1], metadata = None,
              similarity = Fin (6369051672525772 / 2 ^ 53)\<rparr>]"
proof -
  note ex = compass_search
  have t: "prefix (map stored_part (filter (\<lambda>r. similarity r = Fin (6369051672525772 / 2 ^ 53))
                     [\<lparr>chunk_id = JStr (js ''Alpha_chunk_1''), content = js ''long diagonal'',
                        embedding = [Fin 3, Fin 3], metadata = None,
                        similarity = Fin (6369051672525773 / 2 ^ 53)\<rparr>,
                      \<lparr>chunk_id = JStr (js ''Alpha_chunk_0''), content = js ''diagonal'',
                        embedding = [Fin 1, Fin 1], metadata = None,
                        similarity = Fin (6369051672525772 / 2 ^ 53)\<rparr>,
                      \<lparr>chunk_id = JStr (js ''Alpha_chunk_3''), content = js ''diagonal again'',
                        embedding = [Fin 1, Fin 1], metadata = None,
                        similarity = Fin (6369051672525772 / 2 ^ 53)\<rparr>]))
             (filter (\<lambda>c. cosineSimilarity [Fin 1, Fin 0] (embedding c)
                            = Inr (Fin (6369051672525772 / 2 ^ 53)))
                (loadBookChunks compass_file))"
    using search_contract [OF ex] by blast
  have m: "map stored_part (filter (\<lambda>r. similarity r = Fin (6369051672525772 / 2 ^ 53))
                     [\<lparr>chunk_id = JStr (js ''Alpha_chunk_1''), content = js ''long diagonal'',
                        embedding = [Fin 3, Fin 3], metadata = None,
                        similarity = Fin (6369051672525773 / 2 ^ 53)\<rparr>,
                      \<lparr>chunk_id = JStr (js ''Alpha_chunk_0''), content = js ''diagonal'',
                        embedding = [Fin 1, Fin 1], metadata = None,
                        similarity = Fin (6369051672525772 / 2 ^ 53)\<rparr>,
                      \<lparr>chunk_id = JStr (js ''Alpha_chunk_3''), content = js ''diagonal again'',
                        embedding = [Fin 1, Fin 1], metadata = None,
                        similarity = Fin (6369051672525772 / 2 ^ 53)\<rparr>])
           = [chunk_diagonal, chunk_diagonal_again]"
    by (simp add: stored_part_def chunk_diagonal_def chunk_diagonal_again_def)
  show ?thesis
    using ex search_contract [OF ex] t compass_search_boundary unfolding m by blast
qed

text \<open>
  Claim C10. \<^const>\<open>cosineSimilarity\<close> throws exactly when its two vectors differ in
  length; and when every stored chunk's embedding has the length of the query vector,
  \<^const>\<open>searchBookChunks\<close> returns a result: no similarity computation throws.
\<close>

theorem search_total:
  "(isl (cosineSimilarity a b) \<longleftrightarrow> length a \<noteq> length b)
   \<and> ((\<forall>c\<in>set (loadBookChunks file). length (embedding c) = length q)
        \<longrightarrow> (\<exists>results. searchBookChunks file q thr cnt = Inr results))"
proof -
  have "\<exists>results. searchBookChunks file q thr cnt = Inr results"
    if "\<forall>c\<in>set (loadBookChunks file). length (embedding c) = length q"
  proof -
    from score_chunks_total [OF that] obtain r where "score_chunks q (loadBookChunks file) = Inr r" ..
    then show ?thesis by (simp add: searchBookChunks_def Let_def)
  qed
  then show ?thesis using cosineSimilarity_isl by blast
qed

theorem search_total_witness:
  "list_all (\<lambda>c. length (embedding c) = length [Fin 1, Fin 0]) (loadBookChunks compass_file)
   \<and> (\<exists>results. searchBookChunks compass_file [Fin 1, Fin 0] (Fin (1 / 2)) 5 = Inr results)
   \<and> isl (cosineSimilarity [Fin 1, Fin 0] [Fin 1, Fin 0, Fin 0])
   \<and> cosineSimilarity [Fin 1, Fin 0] [Fin 1, Fin 0, Fin 0]
       = Inl (JsError (js ''Vectors must have the same length''))"
proof -
  have h: "\<forall>c\<in>set (loadBookChunks compass_file). length (embedding c) = length [Fin 1, Fin 0]"
    by (simp add: compass_file_def chunk_diagonal_def chunk_long_diagonal_def chunk_north_def
                  chunk_diagonal_again_def)
  have "isl (cosineSimilarity [Fin 1, Fin 0] [Fin 1, Fin 0, Fin 0])"
    using search_total [of "[Fin 1, Fin 0]" "[Fin 1, Fin 0, Fin 0]" FileMissing "[]" NaN 0]
    by simp
  moreover have "cosineSimilarity [Fin 1, Fin 0] [Fin 1, Fin 0, Fin 0]
                   = Inl (JsError (js ''Vectors must have the same length''))"
    by (simp add: cosineSimilarity_def)
  ultimately show ?thesis
    using h search_total [of "[Fin 1, Fin 0]" "[Fin 1, Fin 0]" compass_file "[Fin 1, Fin 0]"
                             "Fin (1 / 2)" 5]
    by (simp add: list_all_iff)
qed

text \<open>
  Claim C3, amended. A backing file that is missing, unreadable or not parseable is
  read as an empty corpus: \<^const>\<open>loadBookChunks\<close> returns the empty array, and
  \<^const>\<open>searchBookChunks\<close> returns normally with the empty result, the very outcome
  of a search in a store that is reachable and empty. No error reaches the caller.
\<close>

theorem unavailable_store_reads_empty:
  assumes "store_unavailable file"
  shows "loadBookChunks file = []
         \<and> searchBookChunks file q thr cnt = Inr []
         \<and> searchBookChunks file q thr cnt = searchBookChunks (FileChunks []) q thr cnt"
  using assms by (cases "file") (simp_all add: searchBookChunks_def)

theorem unavailable_store_reads_empty_witness:
  "store_unavailable FileInvalidJson
   \<and> loadBookChunks FileInvalidJson = []
   \<and> searchBookChunks FileInvalidJson [Fin 1, Fin 0] (js_literal (3 / 10)) 10 = Inr []
   \<and> searchBookChunks FileInvalidJson [Fin 1, Fin 0] (js_literal (3 / 10)) 10
       = searchBookChunks (FileChunks []) [Fin 1, Fin 0] (js_literal (3 / 10)) 10"
proof -
  have h: "store_unavailable FileInvalidJson" by simp
  show ?thesis
    using h unavailable_store_reads_empty [OF h, of "[Fin 1, Fin 0]" "js_literal (3 / 10)" 10]
    by blast
qed

text \<open>
  Claim C3 as stated fails: with the backing file missing, the search does not throw,
  and its outcome is the one of a valid empty store.
\<close>

theorem unavailable_store_counterexample:
  "\<not> isl (searchBookChunks FileMissing [Fin 1, Fin 0] (js_literal (3 / 10)) 10)
   \<and> searchBookChunks FileMissing [Fin 1, Fin 0] (js_literal (3 / 10)) 10
       = searchBookChunks (FileChunks []) [Fin 1, Fin 0] (js_literal (3 / 10)) 10"
  by (simp add: searchBookChunks_def)

subsection \<open>Claims about the similarity\<close>

lemma norms_swap:
  "fold (\<lambda>(a, b) (dotProduct, normA, normB).
           (dadd dotProduct (dmul a b), dadd normA (dmul a a), dadd normB (dmul b b)))
        (zip ys xs) (d, nb, na)
   = (case fold (\<lambda>(a, b) (dotProduct, normA, normB).
                   (dadd dotProduct (dmul a b), dadd normA (dmul a a), dadd normB (dmul b b)))
                (zip xs ys) (d, na, nb)
      of (d', na', nb') \<Rightarrow> (d', nb', na'))"
proof (induction xs arbitrary: ys d na nb)
  case Nil
  then show ?case by simp
next
  case (Cons x xs)
  show ?case
  proof (cases ys)
    case Nil
    then show ?thesis by simp
  next
    case (Cons y ys')
    then show ?thesis using Cons.IH [of ys'] by (simp add: dmul_commute [of y x])
  qed
qed

lemma dot_and_norms_swap:
  "dot_and_norms b a = (case dot_and_norms a b of (d, na, nb) \<Rightarrow> (d, nb, na))"
  unfolding dot_and_norms_def by (rule norms_swap)

lemma cosineSimilarity_commute: "cosineSimilarity a b = cosineSimilarity b a"
proof (cases "length a = length b")
  case True
  obtain d na nb where e: "dot_and_norms a b = (d, na, nb)"
    by (cases "dot_and_norms a b") auto
  then have "dot_and_norms b a = (d, nb, na)" by (simp add: dot_and_norms_swap [of b a])
  then show ?thesis
    using True e by (auto simp: cosineSimilarity_def Let_def dmul_commute [of "dsqrt nb"])
next
  case False
  then show ?thesis by (auto simp: cosineSimilarity_def)
qed

lemma zero_norm_left:
  "list_all is_zero xs \<Longrightarrow>
   fst (snd (fold (\<lambda>(a, b) (dotProduct, normA, normB).
                     (dadd dotProduct (dmul a b), dadd normA (dmul a a), dadd normB (dmul b b)))
                  (zip xs ys) (d, Fin 0, nb))) = Fin 0"
proof (induction xs arbitrary: ys d nb)
  case Nil
  then show ?case by simp
next
  case (Cons x xs)
  then have x: "x = Fin 0" by (cases x) simp_all
  show ?case
  proof (cases ys)
    case Nil
    then show ?thesis by simp
  next
    case (Cons y ys')
    then show ?thesis using Cons.IH [of ys'] Cons.prems by (simp add: x)
  qed
qed

lemma zero_vector_left:
  assumes "length a = length b" and "list_all is_zero a"
  shows "cosineSimilarity a b = Inr (Fin 0)"
proof -
  obtain d na nb where e: "dot_and_norms a b = (d, na, nb)"
    by (cases "dot_and_norms a b") auto
  have "fst (snd (dot_and_norms a b)) = Fin 0"
    unfolding dot_and_norms_def using assms(2) by (rule zero_norm_left)
  then have "na = Fin 0" using e by simp
  then show ?thesis using assms(1) e by (simp add: cosineSimilarity_def Let_def)
qed

text \<open>The product of two computed norms that are not zero is not zero: a norm that
  is not zero is at least \<open>2 ^ -537\<close>, the square root of the least positive double.\<close>

lemma norm_ordered:
  "na = NaN \<or> ordered_value na \<Longrightarrow>
   fst (snd (fold (\<lambda>(a, b) (dotProduct, normA, normB).
                     (dadd dotProduct (dmul a b), dadd normA (dmul a a), dadd normB (dmul b b)))
                  zs (d, na, nb))) = r \<Longrightarrow> r = NaN \<or> ordered_value r"
proof (induction zs arbitrary: d na nb)
  case Nil
  then show ?case by simp
next
  case (Cons z zs)
  obtain a b where z: "z = (a, b)" by (cases z) auto
  show ?case
    using Cons.IH [of "dadd na (dmul a a)" "dadd d (dmul a b)" "dadd nb (dmul b b)"]
      Cons.prems(2) dadd_ordered [of na "dmul a a"] by (simp add: z)
qed

lemma norm_root:
  assumes "r = NaN \<or> ordered_value r"
  shows "is_zero (dsqrt r) \<or> dsqrt r = NaN \<or> dsqrt r = PInf
         \<or> (\<exists>y. dsqrt r = Fin y \<and> 2 powr (- 537) \<le> y)"
proof (cases r)
  case (Fin x)
  consider "x < 0" | "x = 0" | "0 < x" by linarith
  then show ?thesis
  proof cases
    case 1
    then show ?thesis using Fin by simp
  next
    case 2
    then show ?thesis using Fin by simp
  next
    case 3
    from assms Fin obtain k :: int where k: "x = real_of_int k * 2 powr (- 1074)"
      by (auto simp: ordered_value_def)
    have "0 < real_of_int k" using 3 unfolding k by (simp add: zero_less_mult_iff)
    then have "1 \<le> k" by simp
    then have "1 \<le> real_of_int k" by simp
    then have "1 * 2 powr (- 1074) \<le> real_of_int k * 2 powr (- 1074)"
      by (intro mult_right_mono) simp_all
    then have "2 powr (- 1074) \<le> x" unfolding k by simp
    then have "sqrt (2 powr (- 1074)) \<le> sqrt x" by (simp only: real_sqrt_le_iff)
    then have "2 powr real_of_int (- 537) \<le> sqrt x" by (simp add: sqrt_least)
    from rnd_lower [OF this] have "rnd (sqrt x) = PInf
        \<or> (\<exists>y. rnd (sqrt x) = Fin y \<and> 2 powr (- 537) \<le> y)" by simp
    then show ?thesis using Fin 3 by auto
  qed
qed (use assms in simp_all)

lemma divisor_not_zero:
  assumes "dsqrt na = NaN \<or> dsqrt na = PInf \<or> (\<exists>y. dsqrt na = Fin y \<and> 2 powr (- 537) \<le> y)"
    and "dsqrt nb = NaN \<or> dsqrt nb = PInf \<or> (\<exists>y. dsqrt nb = Fin y \<and> 2 powr (- 537) \<le> y)"
  shows "\<not> is_zero (dmul (dsqrt na) (dsqrt nb))"
proof -
  have g: "(0::real) < 2 powr (- 537)" by simp
  have fin: "\<not> is_zero (dmul (Fin y) (Fin z))"
    if "2 powr (- 537) \<le> y" "2 powr (- 537) \<le> z" for y z
  proof -
    have "0 \<le> y" using that(1) g by linarith
    then have "2 powr (- 537) * 2 powr (- 537) \<le> y * z"
      using that by (intro mult_mono) simp_all
    moreover have "(2::real) powr (- 537) * 2 powr (- 537) = 2 powr (- 1074)"
      by (simp add: powr_add [symmetric])
    ultimately have "2 powr (- 1074) \<le> y * z" by simp
    then show ?thesis using rnd_positive positive_not_zero by simp
  qed
  have inf: "\<not> is_zero (dmul (Fin y) PInf)" "\<not> is_zero (dmul PInf (Fin y))" for y
    by simp_all
  show ?thesis using assms fin inf by (elim disjE exE conjE) simp_all
qed

lemma no_division_by_zero:
  "case dot_and_norms a b of
     (dotProduct, normA2, normB2) \<Rightarrow>
       is_zero (dsqrt normA2) \<or> is_zero (dsqrt normB2)
       \<or> \<not> is_zero (dmul (dsqrt normA2) (dsqrt normB2))"
proof -
  obtain d na nb where e: "dot_and_norms a b = (d, na, nb)"
    by (cases "dot_and_norms a b") auto
  then have e': "dot_and_norms b a = (d, nb, na)" by (simp add: dot_and_norms_swap [of b a])
  have fa: "fst (snd (dot_and_norms a b)) = na" using e by simp
  have a: "na = NaN \<or> ordered_value na"
    using norm_ordered [OF _ fa [unfolded dot_and_norms_def]] by simp
  have fb: "fst (snd (dot_and_norms b a)) = nb" using e' by simp
  have b: "nb = NaN \<or> ordered_value nb"
    using norm_ordered [OF _ fb [unfolded dot_and_norms_def]] by simp
  from a b show ?thesis
    using norm_root [of na] norm_root [of nb] divisor_not_zero [of na nb] e by auto
qed

text \<open>
  Claim C5 as stated fails on the doubles the code computes. The similarity of
  \<open>[1, 1, 1]\<close> with itself is \<^verbatim>\<open>1.0000000000000002\<close>, which is more than 1, and that
  of \<open>[1, 1]\<close> with itself is \<^verbatim>\<open>0.9999999999999998\<close>, which is not 1.
\<close>

theorem similarity_bounds_counterexample:
  "cosineSimilarity [Fin 1, Fin 1, Fin 1] [Fin 1, Fin 1, Fin 1]
     = Inr (Fin (4503599627370497 / 2 ^ 52))
   \<and> \<not> dge (Fin 1) (Fin (4503599627370497 / 2 ^ 52))
   \<and> cosineSimilarity [Fin 1, Fin 1] [Fin 1, Fin 1] = Inr (Fin (9007199254740990 / 2 ^ 53))
   \<and> Fin (9007199254740990 / 2 ^ 53) \<noteq> Fin 1"
  using cos_self_3 cos_self_2 by simp

text \<open>
  Claim C5, amended. \<^const>\<open>cosineSimilarity\<close> is symmetric: for all vectors the two
  orders of the arguments give the same outcome, the same number or the same error.
  For vectors of equal length of which one holds zeros only, the result is 0. And
  the division is never by zero: either a computed norm is zero, and the guard
  returns 0 before the division, or the product of the two norms is not zero.
\<close>

theorem similarity_symmetric_zero_guard:
  "cosineSimilarity a b = cosineSimilarity b a
   \<and> (length a = length b \<and> (list_all is_zero a \<or> list_all is_zero b)
        \<longrightarrow> cosineSimilarity a b = Inr (Fin 0))
   \<and> (case dot_and_norms a b of
         (dotProduct, normA2, normB2) \<Rightarrow>
           is_zero (dsqrt normA2) \<or> is_zero (dsqrt normB2)
           \<or> \<not> is_zero (dmul (dsqrt normA2) (dsqrt normB2)))"
proof -
  have "cosineSimilarity a b = Inr (Fin 0)"
    if "length a = length b" and "list_all is_zero a \<or> list_all is_zero b"
    using that zero_vector_left [of a b] zero_vector_left [of b a]
      cosineSimilarity_commute [of a b] by auto
  then have "length a = length b \<and> (list_all is_zero a \<or> list_all is_zero b)
               \<longrightarrow> cosineSimilarity a b = Inr (Fin 0)"
    by blast
  with cosineSimilarity_commute [of a b] no_division_by_zero [of a b] show ?thesis
    by (intro conjI)
qed

theorem similarity_symmetric_zero_guard_witness:
  "cosineSimilarity [Fin 1, Fin 1] [Fin 1, Fin 0] = Inr (Fin (6369051672525772 / 2 ^ 53))
   \<and> cosineSimilarity [Fin 1, Fin 0] [Fin 1, Fin 1] = Inr (Fin (6369051672525772 / 2 ^ 53))
   \<and> list_all is_zero [Fin 0, Fin 0]
   \<and> cosineSimilarity [Fin 0, Fin 0] [Fin 3, Fin 3] = Inr (Fin 0)
   \<and> cosineSimilarity [Fin 3, Fin 3] [Fin 0, Fin 0] = Inr (Fin 0)
   \<and> dot_and_norms [Fin 1, Fin 0] [Fin 1, Fin 1] = (Fin 1, Fin 1, Fin 2)
   \<and> dsqrt (Fin 1) = Fin 1
   \<and> dsqrt (Fin 2) = Fin (6369051672525773 / 2 ^ 52)
   \<and> \<not> is_zero (dmul (dsqrt (Fin 1)) (dsqrt (Fin 2)))"
proof -
  have z: "list_all is_zero [Fin 0, Fin 0]" by simp
  have d: "dot_and_norms [Fin 1, Fin 0] [Fin 1, Fin 1] = (Fin 1, Fin 1, Fin 2)"
    using rnd_1 rnd_2 by (simp add: dot_and_norms_2)
  have s: "dsqrt (Fin 1) = Fin 1" "dsqrt (Fin 2) = Fin (6369051672525773 / 2 ^ 52)"
    using rnd_1 sqrt_2 by simp_all
  have n: "\<not> is_zero (dsqrt (Fin 1))" "\<not> is_zero (dsqrt (Fin 2))"
    unfolding s by simp_all
  have 1: "cosineSimilarity [Fin 1, Fin 1] [Fin 1, Fin 0] = Inr (Fin (6369051672525772 / 2 ^ 53))"
    using cos_diagonal similarity_symmetric_zero_guard [of "[Fin 1, Fin 0]" "[Fin 1, Fin 1]"]
    by (simp add: sim_diagonal_def)
  have 2: "cosineSimilarity [Fin 1, Fin 0] [Fin 1, Fin 1] = Inr (Fin (6369051672525772 / 2 ^ 53))"
    using cos_diagonal by (simp add: sim_diagonal_def)
  have l: "length [Fin 0, Fin 0] = length [Fin 3, Fin 3]"
    "length [Fin 3, Fin 3] = length [Fin 0, Fin 0]"
    by simp_all
  have 3: "cosineSimilarity [Fin 0, Fin 0] [Fin 3, Fin 3] = Inr (Fin 0)"
    using z l(1) similarity_symmetric_zero_guard [of "[Fin 0, Fin 0]" "[Fin 3, Fin 3]"]
    by blast
  have 4: "cosineSimilarity [Fin 3, Fin 3] [Fin 0, Fin 0] = Inr (Fin 0)"
    using z l(2) similarity_symmetric_zero_guard [of "[Fin 3, Fin 3]" "[Fin 0, Fin 0]"]
    by blast
  have 5: "\<not> is_zero (dmul (dsqrt (Fin 1)) (dsqrt (Fin 2)))"
    using n similarity_symmetric_zero_guard [of "[Fin 1, Fin 0]" "[Fin 1, Fin 1]"]
    unfolding d by simp
  show ?thesis
    by (intro conjI) (rule 1, rule 2, rule z, rule 3, rule 4, rule d, rule s(1), rule s(2), rule 5)
qed

section \<open>The retrieval entry point\<close>

subsection \<open>Validation\<close>

lemma trim_Nil_iff: "trim s = [] \<longleftrightarrow> (\<forall>c\<in>set s. is_space c)"
proof -
  have "trim s = [] \<longleftrightarrow> (\<forall>c\<in>set (dropWhile is_space s). is_space c)"
    by (simp add: trim_def dropWhile_eq_Nil_conv)
  also have "\<dots> \<longleftrightarrow> dropWhile is_space s = []"
  proof
    assume a: "\<forall>c\<in>set (dropWhile is_space s). is_space c"
    show "dropWhile is_space s = []"
    proof (rule ccontr)
      assume ne: "dropWhile is_space s \<noteq> []"
      then have "\<not> is_space (hd (dropWhile is_space s))" by (rule hd_dropWhile)
      moreover have "hd (dropWhile is_space s) \<in> set (dropWhile is_space s)" using ne by simp
      ultimately show False using a by blast
    qed
  qed (auto dest: set_dropWhileD)
  finally show ?thesis by (simp add: dropWhile_eq_Nil_conv)
qed

lemma is_space_units: "is_space c \<longleftrightarrow> c \<in> set whitespace_units"
  unfolding is_space_def whitespace_units_def by (simp only: list.set insert_iff empty_iff) presburger

lemma blank_trim: "blank s \<longleftrightarrow> trim s = []"
  by (simp add: blank_def trim_Nil_iff list_all_iff is_space_units)

lemma question_of_property:
  "v \<noteq> JNull \<Longrightarrow> v \<noteq> JUndefined \<Longrightarrow> question_of (JsonBody v) = Inr (question_property v)"
  by (cases v) (simp_all add: get_prop_def)

lemma POST_valid:
  assumes "question_of request = Inr (JStr s)" and "trim s \<noteq> []" and "length s \<le> 1000"
  shows "POST env request =
           (case generateEmbedding env s of
              Inl e \<Rightarrow> (internal_error e, [EmbedCall s])
            | Inr v \<Rightarrow> retrieve env s v [EmbedCall s])"
proof -
  have "s \<noteq> []" using assms(2) by (auto simp: trim_def)
  then show ?thesis using assms by (simp add: POST_def split: sum.splits)
qed

lemma POST_invalid:
  assumes "question_of request = Inr question" and "question_rejected question"
  shows "POST env request =
           (\<lparr>status = 400,
             body = ErrorBody
                      (if (case question of JStr s \<Rightarrow> trim s \<noteq> [] | _ \<Rightarrow> False)
                       then js ''Question is too long. Please keep it under 1000 characters.''
                       else js ''Question is required and must be a non-empty string'')\<rparr>, [])"
proof (cases question)
  case (JStr s)
  then show ?thesis using assms blank_trim [of s]
    by (auto simp: POST_def)
qed (use assms in \<open>simp_all add: POST_def\<close>)

lemma POST_throws:
  "question_of request = Inl e \<Longrightarrow> POST env request = (internal_error e, [])"
  by (simp add: POST_def)

lemma status_internal_error [simp]: "status (internal_error e) = 500"
  by (cases e) (simp add: internal_error_def)

subsection \<open>Retrieval\<close>

lemma answer_from_eq:
  "answer_from env s rs calls =
     (case generateChatResponse env s (take 5 rs) of
        Inl e \<Rightarrow> (internal_error e, calls @ [ChatCall s (take 5 rs)])
      | Inr a \<Rightarrow>
          (\<lparr>status = 200,
            body = AnswerBody a (map (\<lambda>(index, chunk). source_of index chunk) (enumerate 0 (take 5 rs)))
                     (averageConfidence (take 5 rs)) (length rs)\<rparr>,
           calls @ [ChatCall s (take 5 rs)]))"
  by (simp add: answer_from_def Let_def split: sum.splits)

lemma retrieve_relax:
  "retrieve env s v calls =
     (case relax (searchStore env v) relaxation_steps of (outcome, tried) \<Rightarrow>
        let calls' = calls @ map (\<lambda>(t, n). SearchCall v t n) tried
        in case outcome of
             Inl e \<Rightarrow> (internal_error e, calls')
           | Inr rs \<Rightarrow>
               if rs = []
               then (\<lparr>status = 200, body = AnswerBody not_found_answer [] (Fin 0) 0\<rparr>, calls')
               else answer_from env s rs calls')"
  by (simp add: retrieve_def relaxation_steps_def Let_def split: sum.splits)

lemma status_answer_from: "status (fst (answer_from env s rs calls)) \<noteq> 400"
  by (simp add: answer_from_eq split: sum.splits)

lemma status_retrieve: "status (fst (retrieve env s v calls)) \<noteq> 400"
  by (simp add: retrieve_def Let_def status_answer_from split: sum.splits)

lemma fold_add_similarity:
  "fold (\<lambda>chunk sum. dadd sum (similarity chunk)) xs acc = foldl dadd acc (map similarity xs)"
  by (induction xs arbitrary: acc) simp_all

lemma averageConfidence_mean:
  "xs \<noteq> [] \<Longrightarrow> averageConfidence xs = mean_percentage (map similarity xs)"
  by (simp add: averageConfidence_def mean_percentage_def fold_add_similarity)

lemma POST_relax:
  assumes "question_of request = Inr (JStr s)" and "trim s \<noteq> []" and "length s \<le> 1000"
    and "generateEmbedding env s = Inr v"
  shows "POST env request =
     (case relax (searchStore env v) relaxation_steps of (outcome, tried) \<Rightarrow>
        let calls = EmbedCall s # map (\<lambda>(t, n). SearchCall v t n) tried
        in case outcome of
             Inl e \<Rightarrow> (internal_error e, calls)
           | Inr rs \<Rightarrow>
               if rs = []
               then (\<lparr>status = 200, body = AnswerBody not_found_answer [] (Fin 0) 0\<rparr>, calls)
               else (case generateChatResponse env s (take 5 rs) of
                       Inl e \<Rightarrow> (internal_error e, calls @ [ChatCall s (take 5 rs)])
                     | Inr a \<Rightarrow>
                         (\<lparr>status = 200,
                           body = AnswerBody a
                                    (map (\<lambda>(index, chunk). source_of index chunk)
                                         (enumerate 0 (take 5 rs)))
                                    (averageConfidence (take 5 rs)) (length rs)\<rparr>,
                          calls @ [ChatCall s (take 5 rs)])))"
  by (simp add: POST_valid [OF assms(1-3)] assms(4) retrieve_relax answer_from_eq Let_def
           split: prod.splits sum.splits)


subsection \<open>Worked requests\<close>

lemma burnout_question:
  "question_of burnout_request = Inr (JStr (js ''What is burnout?''))"
  "trim (js ''What is burnout?'') \<noteq> []"
  "length (js ''What is burnout?'') \<le> 1000"
  by (simp_all add: burnout_request_def get_prop_def trim_def is_space_def js_def)

text \<open>The doubles of the literals \<^verbatim>\<open>0.3\<close>, \<^verbatim>\<open>0.2\<close>, \<^verbatim>\<open>0.1\<close>, \<^verbatim>\<open>0.15\<close>, \<^verbatim>\<open>0.57\<close> and
  \<^verbatim>\<open>0.56\<close>.\<close>

lemma literal_30: "js_literal (3 / 10) = Fin (5404319552844595 / 2 ^ 54)"
  unfolding js_literal_def using rnd_scaled [of "3 / 10" 54 5404319552844595] by simp

lemma literal_20: "js_literal (2 / 10) = Fin (7205759403792794 / 2 ^ 55)"
  unfolding js_literal_def using rnd_scaled [of "2 / 10" 55 7205759403792794] by simp

lemma literal_10: "js_literal (1 / 10) = Fin (7205759403792794 / 2 ^ 56)"
  unfolding js_literal_def using rnd_scaled [of "1 / 10" 56 7205759403792794] by simp

lemma literal_15: "js_literal (15 / 100) = Fin (5404319552844595 / 2 ^ 55)"
  unfolding js_literal_def using rnd_scaled [of "15 / 100" 55 5404319552844595] by simp



lemma relaxation_steps_doubles:
  "relaxation_steps =
     [(Fin (5404319552844595 / 2 ^ 54), 10), (Fin (7205759403792794 / 2 ^ 55), 15),
      (Fin (7205759403792794 / 2 ^ 56), 20)]"
  by (simp only: relaxation_steps_def literal_30 literal_20 literal_10)

lemma weak_relax:
  "relax (searchStore weak_services [Fin 1, Fin 0]) relaxation_steps
     = (Inr [weak_match], relaxation_steps)"
proof -
  have "\<not> dge (js_literal (15 / 100)) (Fin (5404319552844595 / 2 ^ 54))"
    "\<not> dge (js_literal (15 / 100)) (Fin (7205759403792794 / 2 ^ 55))"
    "dge (js_literal (15 / 100)) (Fin (7205759403792794 / 2 ^ 56))"
    unfolding literal_15 by simp_all
  then show ?thesis
    unfolding relaxation_steps_doubles by (simp add: weak_services_def)
qed

text \<open>\<^verbatim>\<open>0.15 * 100\<close> is \<^verbatim>\<open>15\<close>.\<close>

lemma weak_percentage:
  "math_round (dmul (js_literal (15 / 100)) (Fin 100)) = Fin 15"
  "mean_percentage [js_literal (15 / 100)] = Fin 15"
proof -
  have a: "dadd (Fin 0) (Fin (5404319552844595 / 2 ^ 55)) = Fin (5404319552844595 / 2 ^ 55)"
    using rnd_scaled [of "5404319552844595 / 2 ^ 55" 55 5404319552844595] by simp
  have d: "ddiv (Fin (5404319552844595 / 2 ^ 55)) (Fin 1) = Fin (5404319552844595 / 2 ^ 55)"
    using rnd_scaled [of "5404319552844595 / 2 ^ 55" 55 5404319552844595] by simp
  have m: "dmul (Fin (5404319552844595 / 2 ^ 55)) (Fin 100) = Fin 15"
    using rnd_scaled [of "5404319552844595 / 2 ^ 55 * 100" 49 8444249301319680] by simp
  have r: "math_round (Fin 15) = Fin 15" by simp
  show "math_round (dmul (js_literal (15 / 100)) (Fin 100)) = Fin 15"
    by (simp only: literal_15 m r)
  have "foldl dadd (Fin 0) [Fin (5404319552844595 / 2 ^ 55)] = Fin (5404319552844595 / 2 ^ 55)"
    using a by simp
  then show "mean_percentage [js_literal (15 / 100)] = Fin 15"
    unfolding mean_percentage_def literal_15 of_count_def
    using d m r by simp
qed


subsection \<open>Claims about the retrieval entry point\<close>

text \<open>
  Claim C1. For a question that passes validation and is embedded, the handler is the
  relaxation over the table 0.30 with cap 10, 0.20 with cap 15, 0.10 with cap 20: its
  calls are the embedding, then the searches of the steps tried, in order, a later
  step being tried only when every step before it returned no result; after the
  first result set that is not empty no further search is made, and the generative
  model and the source list are given its first five elements.
\<close>

theorem progressive_relaxation:
  assumes "question_of request = Inr (JStr s)" and "trim s \<noteq> []" and "length s \<le> 1000"
    and "generateEmbedding env s = Inr v"
  shows "POST env request =
     (case relax (searchStore env v) relaxation_steps of (outcome, tried) \<Rightarrow>
        let calls = EmbedCall s # map (\<lambda>(t, n). SearchCall v t n) tried
        in case outcome of
             Inl e \<Rightarrow> (internal_error e, calls)
           | Inr rs \<Rightarrow>
               if rs = []
               then (\<lparr>status = 200, body = AnswerBody not_found_answer [] (Fin 0) 0\<rparr>, calls)
               else (case generateChatResponse env s (take 5 rs) of
                       Inl e \<Rightarrow> (internal_error e, calls @ [ChatCall s (take 5 rs)])
                     | Inr a \<Rightarrow>
                         (\<lparr>status = 200,
                           body = AnswerBody a
                                    (map (\<lambda>(index, chunk). source_of index chunk)
                                         (enumerate 0 (take 5 rs)))
                                    (averageConfidence (take 5 rs)) (length rs)\<rparr>,
                          calls @ [ChatCall s (take 5 rs)])))"
  using assms by (rule POST_relax)

theorem progressive_relaxation_witness:
  "POST weak_services burnout_request =
     (\<lparr>status = 200,
       body = AnswerBody (js ''Rest.'')
                [\<lparr>source_id = JNum (Fin 7), bookTitle = JStr (js ''Alpha''),
                  chunkIndex = JNum (Fin 3), pageNumber = JNull, source_chapter = JNull,
                  source_similarity = Fin 15,
                  preview = js ''Rest is part of recovery....''\<rparr>]
                (Fin 15) 1\<rparr>,
      [EmbedCall (js ''What is burnout?''),
       SearchCall [Fin 1, Fin 0] (Fin (5404319552844595 / 2 ^ 54)) 10,
       SearchCall [Fin 1, Fin 0] (Fin (7205759403792794 / 2 ^ 55)) 15,
       SearchCall [Fin 1, Fin 0] (Fin (7205759403792794 / 2 ^ 56)) 20,
       ChatCall (js ''What is burnout?'') [weak_match]])"
proof -
  have e: "generateEmbedding weak_services (js ''What is burnout?'') = Inr [Fin 1, Fin 0]"
    by (simp add: weak_services_def)
  have c: "generateChatResponse weak_services (js ''What is burnout?'') [weak_match]
             = Inr (js ''Rest.'')"
    by (simp add: weak_services_def)
  have a: "averageConfidence [weak_match] = Fin 15"
    using weak_percentage(2) by (simp add: averageConfidence_mean weak_match_def)
  have s: "source_of 0 weak_match =
             \<lparr>source_id = JNum (Fin 7), bookTitle = JStr (js ''Alpha''),
              chunkIndex = JNum (Fin 3), pageNumber = JNull, source_chapter = JNull,
              source_similarity = Fin 15,
              preview = js ''Rest is part of recovery....''\<rparr>"
    using weak_percentage(1)
    by (simp add: source_of_def weak_match_def get_prop_def js_or_def js_def)
  have p: "POST weak_services burnout_request =
     (\<lparr>status = 200,
       body = AnswerBody (js ''Rest.'') [source_of 0 weak_match] (averageConfidence [weak_match]) 1\<rparr>,
      EmbedCall (js ''What is burnout?'')
        # map (\<lambda>(t, n). SearchCall [Fin 1, Fin 0] t n) relaxation_steps
        @ [ChatCall (js ''What is burnout?'') [weak_match]])"
    using progressive_relaxation [OF burnout_question e]
    by (simp add: weak_relax c)
  show ?thesis
    unfolding p a s relaxation_steps_doubles by simp
qed



text \<open>
  Claim C8 as stated fails: a request whose body is \<^verbatim>\<open>null\<close>, or is not JSON, has no
  question, and the handler answers it with status 500, not 400: reading the question
  throws before the validation, and the \<^verbatim>\<open>catch\<close> of the handler answers.
\<close>

theorem question_validation_counterexample:
  "status (fst (POST weak_services (JsonBody JNull))) = 500
   \<and> status (fst (POST weak_services (JsonBody JNull))) \<noteq> 400
   \<and> snd (POST weak_services (JsonBody JNull)) = []
   \<and> POST weak_services (InvalidJson (js ''Unexpected end of JSON input''))
       = (\<lparr>status = 500,
           body = ErrorBody (js ''An unexpected error occurred: Unexpected end of JSON input'')\<rparr>,
          [])"
  by (simp add: POST_def internal_error_def js_def)

text \<open>
  Claim C8, amended. A request whose body is JSON other than \<^verbatim>\<open>null\<close> and whose
  question is missing, not a string, empty, white space only or longer than 1000
  code units gets status 400, and the handler makes no call to the embedding provider
  or to the store. A question string that is not blank and has at most 1000 code
  units, so in particular one of exactly 1000, is accepted: the response is not a
  400 and the first call embeds that question. A request whose body is not JSON, or
  is \<^verbatim>\<open>null\<close>, gets status 500, also without any call.
\<close>

theorem question_validation:
  "(status (fst (POST env (InvalidJson message))) = 500
      \<and> snd (POST env (InvalidJson message)) = [])
   \<and> (status (fst (POST env (JsonBody JNull))) = 500 \<and> snd (POST env (JsonBody JNull)) = [])
   \<and> (v \<noteq> JNull \<and> v \<noteq> JUndefined \<and> question_rejected (question_property v)
        \<longrightarrow> status (fst (POST env (JsonBody v))) = 400 \<and> snd (POST env (JsonBody v)) = [])
   \<and> (\<forall>s. question_property v = JStr s \<and> \<not> blank s \<and> length s \<le> 1000
        \<longrightarrow> status (fst (POST env (JsonBody v))) \<noteq> 400
            \<and> take 1 (snd (POST env (JsonBody v))) = [EmbedCall s])"
proof -
  have 0: "status (fst (POST env (InvalidJson message))) = 500
           \<and> snd (POST env (InvalidJson message)) = []"
    by (simp add: POST_throws)
  have 1: "status (fst (POST env (JsonBody JNull))) = 500 \<and> snd (POST env (JsonBody JNull)) = []"
    by (simp add: POST_throws)
  have 2: "status (fst (POST env (JsonBody v))) = 400 \<and> snd (POST env (JsonBody v)) = []"
    if "v \<noteq> JNull" "v \<noteq> JUndefined" "question_rejected (question_property v)"
    using POST_invalid [OF question_of_property [OF that(1,2)] that(3), of env] by simp
  have 3: "status (fst (POST env (JsonBody v))) \<noteq> 400
           \<and> take 1 (snd (POST env (JsonBody v))) = [EmbedCall s]"
    if h: "question_property v = JStr s \<and> \<not> blank s \<and> length s \<le> 1000" for s
  proof -
    from h have "v \<noteq> JNull" "v \<noteq> JUndefined" by auto
    then have q: "question_of (JsonBody v) = Inr (JStr s)"
      using h question_of_property by simp
    from h have t: "trim s \<noteq> []" and l: "length s \<le> 1000"
      by (simp_all add: blank_trim)
    have calls: "take 1 (snd (retrieve env s w [EmbedCall s])) = [EmbedCall s]" for w
      by (simp add: retrieve_def answer_from_eq Let_def split: sum.splits)
    have "status (fst (POST env (JsonBody v))) \<noteq> 400"
      by (simp add: POST_valid [OF q t l] status_retrieve split: sum.splits)
    moreover have "take 1 (snd (POST env (JsonBody v))) = [EmbedCall s]"
      using calls by (simp add: POST_valid [OF q t l] split: sum.splits)
    ultimately show ?thesis ..
  qed
  show ?thesis using 0 1 2 3 by blast
qed

theorem question_validation_witness:
  "POST weak_services (JsonBody (JObj [(''question'', JStr [160])]))
     = (\<lparr>status = 400,
         body = ErrorBody (js ''Question is required and must be a non-empty string'')\<rparr>, [])
   \<and> status (fst (POST weak_services (JsonBody (JObj [(''question'', JStr (js ''   ''))])))) = 400
   \<and> snd (POST weak_services (JsonBody (JObj [(''question'', JStr (js ''   ''))]))) = []
   \<and> status (fst (POST weak_services (JsonBody (JObj [(''query'', JStr (js ''What?''))])))) = 400
   \<and> status (fst (POST weak_services (JsonBody (JObj [(''question'', JNum (Fin 7))])))) = 400
   \<and> status (fst (POST weak_services
        (JsonBody (JObj [(''question'', JStr (replicate 1001 97))])))) = 400
   \<and> snd (POST weak_services (JsonBody (JObj [(''question'', JStr (replicate 1001 97))]))) = []
   \<and> status (fst (POST weak_services
        (JsonBody (JObj [(''question'', JStr (replicate 1000 97))])))) = 200
   \<and> take 1 (snd (POST weak_services
        (JsonBody (JObj [(''question'', JStr (replicate 1000 97))]))))
       = [EmbedCall (replicate 1000 97)]
   \<and> status (fst (POST weak_services (JsonBody JNull))) = 500"
proof -
  let ?nbsp = "JObj [(''question'', JStr [160])]"
  let ?sp = "JObj [(''question'', JStr (js ''   ''))]"
  let ?none = "JObj [(''query'', JStr (js ''What?''))]"
  let ?num = "JObj [(''question'', JNum (Fin 7))]"
  let ?long = "JObj [(''question'', JStr (replicate 1001 97))]"
  let ?ok = "JObj [(''question'', JStr (replicate 1000 97))]"
  have r: "question_rejected (question_property ?nbsp)"
    "question_rejected (question_property ?sp)"
    "question_rejected (question_property ?none)"
    "question_rejected (question_property ?num)"
    "question_rejected (question_property ?long)"
    by (simp_all add: blank_def whitespace_units_def js_def)
  have a: "question_property ?ok = JStr (replicate 1000 97)
           \<and> \<not> blank (replicate 1000 97) \<and> length (replicate 1000 97 :: jsstring) \<le> 1000"
    by (simp add: blank_def whitespace_units_def list_all_iff)
  have n: "POST weak_services (JsonBody ?nbsp)
     = (\<lparr>status = 400,
         body = ErrorBody (js ''Question is required and must be a non-empty string'')\<rparr>, [])"
    by (simp add: POST_def get_prop_def trim_def is_space_def)
  have k: "status (fst (POST weak_services (JsonBody ?ok))) = 200"
  proof -
    have q: "question_of (JsonBody ?ok) = Inr (JStr (replicate 1000 97))"
      by (simp add: get_prop_def)
    have t: "trim (replicate 1000 97) \<noteq> []"
      using a by (simp add: blank_trim)
    have e: "generateEmbedding weak_services (replicate 1000 97) = Inr [Fin 1, Fin 0]"
      by (simp add: weak_services_def)
    have c: "generateChatResponse weak_services (replicate 1000 97) [weak_match]
               = Inr (js ''Rest.'')"
      by (simp add: weak_services_def)
    show ?thesis
      by (simp add: POST_relax [OF q t _ e] weak_relax c)
  qed
  show ?thesis
    using n k r a question_validation [of weak_services "[]" ?nbsp]
      question_validation [of weak_services "[]" ?sp]
      question_validation [of weak_services "[]" ?none]
      question_validation [of weak_services "[]" ?num]
      question_validation [of weak_services "[]" ?long]
      question_validation [of weak_services "[]" ?ok]
    by simp
qed

section \<open>The upload pipeline: replacing a book\<close>

lemma upload_loop_shape:
  "upload_loop env chunks i cnt db = (res, db') \<Longrightarrow> i \<le> length chunks \<Longrightarrow>
   \<exists>k. i \<le> k \<and> k \<le> length chunks \<and> db' = db @ take (k - i) (drop i chunks)
       \<and> (case res of Inr n \<Rightarrow> k = length chunks \<and> n = cnt + (length chunks - i)
           | Inl e \<Rightarrow> k < length chunks \<and> insertError env k = Some e)"
proof (induction env chunks i cnt db rule: upload_loop.induct)
  case (1 env chunks i cnt db)
  show ?case
  proof (cases "i < length chunks")
    case False
    then have "res = Inr cnt" "db' = db" using "1.prems"(1) by (simp_all add: upload_loop.simps)
    then show ?thesis using False "1.prems"(2) by (intro exI [of _ "length chunks"]) simp
  next
    case True
    show ?thesis
    proof (cases "insertError env i")
      case (Some e)
      then have "res = Inl e" "db' = db" using True "1.prems"(1)
        by (simp_all add: upload_loop.simps [of env chunks i])
      then show ?thesis using True Some by (intro exI [of _ i]) simp
    next
      case None
      define batch where "batch = take 10 (drop i chunks)"
      have rec: "upload_loop env chunks (i + 10) (cnt + length batch) (db @ batch) = (res, db')"
        using True None "1.prems"(1) by (simp add: upload_loop.simps [of env chunks i] batch_def)
      show ?thesis
      proof (cases "i + 10 \<le> length chunks")
        case le: True
        from "1.IH" [OF True batch_def None rec le]
        obtain k where k: "i + 10 \<le> k" "k \<le> length chunks"
          "db' = (db @ batch) @ take (k - (i + 10)) (drop (i + 10) chunks)"
          "case res of Inr n \<Rightarrow> k = length chunks \<and> n = cnt + length batch + (length chunks - (i + 10))
           | Inl e \<Rightarrow> k < length chunks \<and> insertError env k = Some e" by blast
        have lb: "length batch = 10" using le by (simp add: batch_def)
        have "take (k - i) (drop i chunks)
                = take 10 (drop i chunks) @ take (k - (i + 10)) (drop (i + 10) chunks)"
        proof -
          have "k - i = 10 + (k - (i + 10))" using k(1) by simp
          then show ?thesis by (simp only: take_add drop_drop add.commute [of 10 i])
        qed
        then have "db' = db @ take (k - i) (drop i chunks)" using k(3) by (simp add: batch_def)
        moreover have "case res of Inr n \<Rightarrow> k = length chunks \<and> n = cnt + (length chunks - i)
           | Inl e \<Rightarrow> k < length chunks \<and> insertError env k = Some e"
          using k(4) lb le by (auto split: sum.splits)
        ultimately show ?thesis using k(1,2) by (intro exI [of _ k]) simp
      next
        case gt: False
        then have "\<not> i + 10 < length chunks" by simp
        then have "res = Inr (cnt + length batch)" "db' = db @ batch"
          using rec by (simp_all add: upload_loop.simps [of env chunks "i + 10"])
        moreover have "batch = drop i chunks" using gt by (simp add: batch_def)
        ultimately show ?thesis using True by (intro exI [of _ "length chunks"]) simp
      qed
    qed
  qed
qed

lemma make_row_fresh:
  "row_title (make_row env file i chunk emb) = JStr (file_title file)"
  "get_prop (Some (row_metadata (make_row env file i chunk emb))) ''uploaded_at''
     = JStr (timestamp env)"
  by (simp_all add: make_row_def row_title_def get_prop_def)

lemma embed_batch_fresh:
  "row \<in> set (embed_batch env file i batch) \<Longrightarrow> fresh_row env file row"
  by (auto simp: embed_batch_def List.map_filter_def fresh_row_def make_row_fresh
           split: sum.splits)

lemma embed_loop_fresh:
  "row \<in> set (embed_loop env bk textChunks i processed) \<Longrightarrow>
   row \<in> set processed \<or> fresh_row env bk row"
proof (induction env bk textChunks i processed rule: embed_loop.induct)
  case (1 env bk textChunks i processed)
  show ?case
  proof (cases "i < length textChunks")
    case True
    then have "row \<in> set (embed_loop env bk textChunks (i + 5)
                 (processed @ embed_batch env bk i (take 5 (drop i textChunks))))"
      using "1.prems" by (simp add: embed_loop.simps [of env bk textChunks i])
    from "1.IH" [OF True this] show ?thesis by (auto dest: embed_batch_fresh)
  next
    case False
    then show ?thesis using "1.prems" by (simp add: embed_loop.simps [of env bk textChunks i])
  qed
qed

lemma upload_shape:
  assumes "uploadChunksToSupabase env db chunks title = (res, db')"
  shows "\<exists>k\<le>length chunks. db' = db @ take k chunks
           \<and> (case res of Inr n \<Rightarrow> k = length chunks \<and> n = length chunks
               | Inl e \<Rightarrow> k < length chunks \<and> insertError env k = Some e)"
proof -
  from assms have "upload_loop env chunks 0 0 db = (res, db')"
    by (simp add: uploadChunksToSupabase_def)
  from upload_loop_shape [OF this] obtain k where k: "k \<le> length chunks"
    "db' = db @ take (k - 0) (drop 0 chunks)"
    "case res of Inr n \<Rightarrow> k = length chunks \<and> n = 0 + (length chunks - 0)
     | Inl e \<Rightarrow> k < length chunks \<and> insertError env k = Some e"
    by auto
  have "db' = db @ take k chunks" using k(2) by simp
  moreover have "case res of Inr n \<Rightarrow> k = length chunks \<and> n = length chunks
     | Inl e \<Rightarrow> k < length chunks \<and> insertError env k = Some e"
    using k(3) by (cases res) simp_all
  ultimately show ?thesis using k(1) by blast
qed

text \<open>
  Claim C7, amended. With \<open>clearExisting\<close> set, \<^verbatim>\<open>processBookToSupabase\<close> on a
  \<^verbatim>\<open>.txt\<close> file deletes the stored chunks of the title before it writes: when the
  delete request fails the table is left as it was and the function returns 0; when
  it succeeds, the table left is the rows of the other titles followed by rows
  written in this run, so a chunk stored before the run and a chunk written by the
  run are never stored together for that title, and the function returns 0 or the
  number of rows written. The replacement is not all or nothing: an insert request
  that fails leaves the earlier batches stored and the old chunks deleted.
\<close>

theorem replacement_deletes_first:
  assumes "file_ext file = js ''.txt''"
    and "processBookToSupabase env db file True = (n, db')"
  shows "(deleteError env (file_title file) \<noteq> None \<longrightarrow> n = 0 \<and> db' = db)
       \<and> (deleteError env (file_title file) = None \<longrightarrow>
            (\<exists>written.
               db' = filter (\<lambda>row. row_title row \<noteq> JStr (file_title file)) db @ written
               \<and> (\<forall>row\<in>set written. fresh_row env file row)
               \<and> (n = 0 \<or> n = length written)))"
proof (cases "deleteError env (file_title file)")
  case (Some e)
  then show ?thesis using assms by (simp add: processBookToSupabase_def clearBookChunks_def)
next
  case None
  define db1 where "db1 = filter (\<lambda>row. row_title row \<noteq> JStr (file_title file)) db"
  have clear: "clearBookChunks env db (file_title file) = Inr db1"
    using None by (simp add: clearBookChunks_def db1_def)
  have "\<exists>written. db' = db1 @ written \<and> (\<forall>row\<in>set written. fresh_row env file row)
          \<and> (n = 0 \<or> n = length written)"
  proof (cases "file_content file")
    case (Inl e)
    then have "n = 0" "db' = db1"
      using assms clear by (simp_all add: processBookToSupabase_def)
    then show ?thesis by (intro exI [of _ "[]"]) simp
  next
    case (Inr fileText)
    show ?thesis
    proof (cases "length fileText < 100")
      case True
      then have "n = 0" "db' = db1"
        using assms clear Inr by (simp_all add: processBookToSupabase_def)
      then show ?thesis by (intro exI [of _ "[]"]) simp
    next
      case False
      define processed where
        "processed = embed_loop env file (splitTextIntoChunks (cleanText fileText) 400 50) 0 []"
      obtain res db2 where up: "uploadChunksToSupabase env db1 processed (file_title file) = (res, db2)"
        by (cases "uploadChunksToSupabase env db1 processed (file_title file)") auto
      have out: "(n, db') = (case res of Inl e \<Rightarrow> (0, db2) | Inr cnt \<Rightarrow> (cnt, db2))"
        using assms clear Inr False up
        by (simp add: processBookToSupabase_def Let_def processed_def [symmetric]
                 split: sum.splits)
      from upload_shape [OF up] obtain k where k: "k \<le> length processed"
        "db2 = db1 @ take k processed"
        "case res of Inr m \<Rightarrow> k = length processed \<and> m = length processed
         | Inl e \<Rightarrow> k < length processed \<and> insertError env k = Some e" by blast
      have fresh: "\<forall>row\<in>set (take k processed). fresh_row env file row"
        using embed_loop_fresh [of _ env "file" "splitTextIntoChunks (cleanText fileText) 400 50" 0 "[]"]
        by (auto simp: processed_def dest: in_set_takeD)
      have "db' = db1 @ take k processed" using out k(2) by (auto split: sum.splits)
      moreover have "n = 0 \<or> n = length (take k processed)"
        using out k(3) by (auto split: sum.splits)
      ultimately show ?thesis using fresh by blast
    qed
  qed
  then show ?thesis using None by (simp add: db1_def)
qed

theorem replacement_deletes_first_witness:
  "file_ext alpha_file = js ''.txt''
   \<and> fst (processBookToSupabase working_upload [old_row] alpha_file True) = 1
   \<and> length (snd (processBookToSupabase working_upload [old_row] alpha_file True)) = 1
   \<and> (\<exists>written.
         snd (processBookToSupabase working_upload [old_row] alpha_file True)
           = filter (\<lambda>row. row_title row \<noteq> JStr (file_title alpha_file)) [old_row] @ written
         \<and> list_all (fresh_row working_upload alpha_file) written)
   \<and> processBookToSupabase failing_delete [old_row] alpha_file True = (0, [old_row])"
proof -
  have x: "file_ext alpha_file = js ''.txt''" by (simp add: alpha_file_def)
  have d: "deleteError working_upload (file_title alpha_file) = None"
    by (simp add: working_upload_def)
  have n: "fst (processBookToSupabase working_upload [old_row] alpha_file True) = 1"
    by code_simp
  have l: "length (snd (processBookToSupabase working_upload [old_row] alpha_file True)) = 1"
    by code_simp
  have p: "processBookToSupabase working_upload [old_row] alpha_file True
             = (fst (processBookToSupabase working_upload [old_row] alpha_file True),
                snd (processBookToSupabase working_upload [old_row] alpha_file True))"
    by simp
  from replacement_deletes_first [OF x p] d
  have w: "\<exists>written.
         snd (processBookToSupabase working_upload [old_row] alpha_file True)
           = filter (\<lambda>row. row_title row \<noteq> JStr (file_title alpha_file)) [old_row] @ written
         \<and> (\<forall>row\<in>set written. fresh_row working_upload alpha_file row)"
    by blast
  have d': "deleteError failing_delete (file_title alpha_file) \<noteq> None"
    by (simp add: failing_delete_def)
  have p': "processBookToSupabase failing_delete [old_row] alpha_file True
             = (fst (processBookToSupabase failing_delete [old_row] alpha_file True),
                snd (processBookToSupabase failing_delete [old_row] alpha_file True))"
    by simp
  from replacement_deletes_first [OF x p'] d'
  have "fst (processBookToSupabase failing_delete [old_row] alpha_file True) = 0
        \<and> snd (processBookToSupabase failing_delete [old_row] alpha_file True) = [old_row]"
    by blast
  then have f: "processBookToSupabase failing_delete [old_row] alpha_file True = (0, [old_row])"
    by (simp add: prod_eq_iff)
  show ?thesis using x n l w f by (simp add: list_all_iff)
qed

text \<open>
  Claim C7 as stated fails: the book Alpha has one stored chunk, the run deletes it,
  and the insert request of the only batch fails. The table left is empty: it is not
  the prior state, and it is not the state a run without failure leaves.
\<close>

theorem replacement_deletes_first_counterexample:
  "snd (processBookToSupabase failing_insert [old_row] alpha_file True) \<noteq> [old_row]
   \<and> snd (processBookToSupabase failing_insert [old_row] alpha_file True)
       \<noteq> snd (processBookToSupabase working_upload [old_row] alpha_file True)
   \<and> processBookToSupabase failing_insert [old_row] alpha_file True = (0, [])"
  by code_simp

text \<open>With more than one batch, the rows of the batches before the failing one stay.\<close>

lemma second_batch_fails:
  assumes "length chunks = 11" and "insertError env 0 = None" and "insertError env 10 = Some e"
  shows "uploadChunksToSupabase env db chunks title = (Inl e, db @ take 10 chunks)"
  using assms
  by (simp add: uploadChunksToSupabase_def upload_loop.simps [of env chunks 0]
                upload_loop.simps [of env chunks 10])

end
